theory Spec2Isabelle
  imports Complex_Main "HOL-Library.List_Lexorder" "HOL-Library.Multiset"
begin

section \<open>Python strings\<close>

text \<open>
  A Python \<open>str\<close> is a sequence of Unicode code points. It is modelled as a list of
  natural numbers, one per code point, so that \<open>len\<close>, slicing, \<open>startswith\<close> and the
  comparison of strings (lexicographic, by code point) are those of Python. An ASCII
  literal of the source is written \<open>ascii ''...''\<close>.
\<close>

type_synonym str = "nat list"

definition ascii :: "string \<Rightarrow> str" where
  "ascii s = map of_char s"

text \<open>The line boundaries of \<open>str.splitlines\<close>: LF, VT, FF, CR, FS, GS, RS, NEL, LS, PS.\<close>

definition is_linebreak :: "nat \<Rightarrow> bool" where
  "is_linebreak c = (c \<in> set [10, 11, 12, 13, 28, 29, 30, 133, 8232, 8233])"

text \<open>The characters \<open>str.strip()\<close> removes: those for which \<open>str.isspace\<close> holds.\<close>

definition is_space :: "nat \<Rightarrow> bool" where
  "is_space c = ((9 \<le> c \<and> c \<le> 13) \<or> (28 \<le> c \<and> c \<le> 32) \<or> c = 133 \<or> c = 160
      \<or> c = 5760 \<or> (8192 \<le> c \<and> c \<le> 8202) \<or> c = 8232 \<or> c = 8233 \<or> c = 8239
      \<or> c = 8287 \<or> c = 12288)"

definition lstrip :: "str \<Rightarrow> str" where
  "lstrip s = dropWhile is_space s"

definition rstrip :: "str \<Rightarrow> str" where
  "rstrip s = rev (dropWhile is_space (rev s))"

definition strip :: "str \<Rightarrow> str" where
  "strip s = rstrip (lstrip s)"

definition startswith :: "str \<Rightarrow> str \<Rightarrow> bool" where
  "startswith s p = (take (length p) s = p)"

text \<open>
  \<open>s.splitlines()\<close>: the text is scanned once, \<open>cur\<close> holding the characters of the line
  being read. A line boundary closes the line (CR LF counts as one boundary), and the
  characters after the last boundary form a last line only when there are any, so a text
  that ends with a boundary has no empty last line and the empty text has no line.
\<close>

fun splitlines_from :: "str \<Rightarrow> str \<Rightarrow> str list" where
  "splitlines_from cur [] = (if cur = [] then [] else [cur])"
| "splitlines_from cur (c # cs) =
     (if c = 13 then
        (case cs of
           [] \<Rightarrow> [cur]
         | d # ds \<Rightarrow> if d = 10 then cur # splitlines_from [] ds
                    else cur # splitlines_from [] (d # ds))
      else if is_linebreak c then cur # splitlines_from [] cs
      else splitlines_from (cur @ [c]) cs)"

definition splitlines :: "str \<Rightarrow> str list" where
  "splitlines s = splitlines_from [] s"

text \<open>\<open>'\n'.join(lines)\<close>.\<close>

fun join_nl :: "str list \<Rightarrow> str" where
  "join_nl [] = []"
| "join_nl [l] = l"
| "join_nl (l # m # ls) = l @ [10] @ join_nl (m # ls)"

text \<open>\<open>str(n)\<close> for a non-negative integer: its decimal digits.\<close>

fun str_of_nat :: "nat \<Rightarrow> str" where
  "str_of_nat n = (if n < 10 then [48 + n] else str_of_nat (n div 10) @ [48 + n mod 10])"

declare str_of_nat.simps [simp del]

section \<open>Text normalizer (\<open>ConfigDiffChecker.filter_ignored_lines\<close>)\<close>

text \<open>The fallback list of \<open>load_ignore_patterns\<close>.\<close>

definition default_patterns :: "str list" where
  "default_patterns =
     [ascii ''! Last configuration change'',
      ascii ''! NVRAM config last updated'',
      ascii ''!Time:'',
      ascii ''!'',
      ascii ''#'']"

text \<open>
  The inner loop over \<open>self.ignore_patterns\<close>: the flag is set, and the loop left, at the
  first pattern the stripped line starts with.
\<close>

fun ignore_line :: "str list \<Rightarrow> str \<Rightarrow> bool" where
  "ignore_line [] line = False"
| "ignore_line (pattern # patterns) line =
     (if startswith (strip line) pattern then True else ignore_line patterns line)"

text \<open>The outer loop over the lines, \<open>filtered_lines\<close> being the list appended to.\<close>

fun filter_loop :: "str list \<Rightarrow> str list \<Rightarrow> str list \<Rightarrow> str list" where
  "filter_loop patterns [] filtered_lines = filtered_lines"
| "filter_loop patterns (line # lines) filtered_lines =
     filter_loop patterns lines
       (if \<not> ignore_line patterns line then filtered_lines @ [line] else filtered_lines)"

definition filter_ignored_lines :: "str list \<Rightarrow> str \<Rightarrow> str" where
  "filter_ignored_lines patterns config_content =
     (if config_content = [] then []
      else join_nl (filter_loop patterns (splitlines config_content) []))"

text \<open>Notions used to state what the normalizer does to the shape of a text.\<close>

definition no_linebreak :: "str \<Rightarrow> bool" where
  "no_linebreak l = (\<forall>c\<in>set l. \<not> is_linebreak c)"

definition drop_last_empty :: "str list \<Rightarrow> str list" where
  "drop_last_empty ls = (if ls \<noteq> [] \<and> last ls = [] then butlast ls else ls)"

definition ends_with_newline :: "str \<Rightarrow> bool" where
  "ends_with_newline s = (s \<noteq> [] \<and> last s = 10)"

section \<open>Exceptions, paths, time\<close>

text \<open>An exception caught by \<open>except Exception as e\<close>, with the text \<open>str(e)\<close> gives.\<close>

datatype exn = Exception str

fun str_of_exn :: "exn \<Rightarrow> str" where
  "str_of_exn (Exception msg) = msg"

text \<open>
  \<open>Path(p).name\<close>: the last component of the path, where empty components and
  \<open>.\<close> components do not count; the empty string when there is none.
\<close>

fun split_slash_from :: "str \<Rightarrow> str \<Rightarrow> str list" where
  "split_slash_from cur [] = [cur]"
| "split_slash_from cur (c # cs) =
     (if c = 47 then cur # split_slash_from [] cs else split_slash_from (cur @ [c]) cs)"

definition path_parts :: "str \<Rightarrow> str list" where
  "path_parts p = filter (\<lambda>q. q \<noteq> [] \<and> q \<noteq> [46]) (split_slash_from [] p)"

definition path_name :: "str \<Rightarrow> str" where
  "path_name p = (if path_parts p = [] then [] else last (path_parts p))"

text \<open>\<open>dir / name\<close>: an absolute right operand replaces the left one.\<close>

definition joinpath :: "str \<Rightarrow> str \<Rightarrow> str" where
  "joinpath d f = (if startswith f [47] then f else d @ [47] @ f)"

record datetime =
  year :: nat
  month :: nat
  day :: nat
  hour :: nat
  minute :: nat
  second :: nat
  microsecond :: nat

definition zfill :: "nat \<Rightarrow> str \<Rightarrow> str" where
  "zfill w s = replicate (w - length s) 48 @ s"

text \<open>
  \<open>strftime("%Y%m%d_%H%M%S")\<close>: the year in decimal, every other field as two digits.
\<close>

definition strftime_stamp :: "datetime \<Rightarrow> str" where
  "strftime_stamp t =
     str_of_nat (year t) @ zfill 2 (str_of_nat (month t)) @ zfill 2 (str_of_nat (day t))
     @ ascii ''_'' @ zfill 2 (str_of_nat (hour t)) @ zfill 2 (str_of_nat (minute t))
     @ zfill 2 (str_of_nat (second t))"

text \<open>The name of a snapshot file: \<open>f"{device['name']}_{timestamp}.cfg"\<close>.\<close>

definition snapshot_filename :: "str \<Rightarrow> datetime \<Rightarrow> str" where
  "snapshot_filename device_name t = device_name @ ascii ''_'' @ strftime_stamp t @ ascii ''.cfg''"

definition isoformat :: "datetime \<Rightarrow> str" where
  "isoformat t =
     zfill 4 (str_of_nat (year t)) @ ascii ''-'' @ zfill 2 (str_of_nat (month t)) @ ascii ''-''
     @ zfill 2 (str_of_nat (day t)) @ ascii ''T'' @ zfill 2 (str_of_nat (hour t)) @ ascii '':''
     @ zfill 2 (str_of_nat (minute t)) @ ascii '':'' @ zfill 2 (str_of_nat (second t))
     @ (if microsecond t = 0 then [] else ascii ''.'' @ zfill 6 (str_of_nat (microsecond t)))"

text \<open>
  A value \<open>datetime.now()\<close> can return, with a year of four digits, and the order of
  two such values in time.
\<close>

definition valid_datetime :: "datetime \<Rightarrow> bool" where
  "valid_datetime t = (1000 \<le> year t \<and> year t \<le> 9999 \<and> 1 \<le> month t \<and> month t \<le> 12
      \<and> 1 \<le> day t \<and> day t \<le> 31 \<and> hour t \<le> 23 \<and> minute t \<le> 59 \<and> second t \<le> 59)"

definition seconds_key :: "datetime \<Rightarrow> nat \<times> nat \<times> nat \<times> nat \<times> nat \<times> nat" where
  "seconds_key t = (year t, month t, day t, hour t, minute t, second t)"

fun earlier6 :: "nat \<times> nat \<times> nat \<times> nat \<times> nat \<times> nat \<Rightarrow> nat \<times> nat \<times> nat \<times> nat \<times> nat \<times> nat \<Rightarrow> bool" where
  "earlier6 (y, mo, d, h, mi, s) (y', mo', d', h', mi', s') =
     (y < y' \<or> (y = y' \<and> (mo < mo' \<or> (mo = mo' \<and> (d < d' \<or> (d = d' \<and>
        (h < h' \<or> (h = h' \<and> (mi < mi' \<or> (mi = mi' \<and> s < s'))))))))))"

definition earlier :: "datetime \<Rightarrow> datetime \<Rightarrow> bool" where
  "earlier t t' = earlier6 (seconds_key t) (seconds_key t')"

section \<open>Diff engine (\<open>ConfigDiffChecker.compare_configs\<close>)\<close>

text \<open>
  What the checker sees of the outside: whether a path exists, the paths a directory's
  \<open>glob\<close> yields for a pattern (in the order the directory gives them), the text of a
  file, and the clock. Each file operation can raise.
\<close>

record environment =
  path_exists :: "str \<Rightarrow> exn + bool"
  glob :: "str \<Rightarrow> str \<Rightarrow> exn + str list"
  read_text :: "str \<Rightarrow> exn + str"
  now :: datetime

record checker =
  ignore_patterns :: "str list"
  backup_dir :: str

record difference =
  line_number :: nat
  old_value :: str
  new_value :: str

text \<open>
  The dictionary \<open>compare_configs\<close> returns. The keys that only one of its two shapes
  has are optional fields.
\<close>

record comparison_result =
  identical :: bool
  differences_count :: nat
  summary :: str
  differences :: "difference list"
  device :: str
  config1_file :: "str option"
  config2_file :: "str option"
  comparison_date :: "str option"
  error :: "str option"

text \<open>\<open>lines[i] if i < len(lines) else ""\<close>.\<close>

definition line_at :: "str list \<Rightarrow> nat \<Rightarrow> str" where
  "line_at lines i = (if i < length lines then lines ! i else [])"

text \<open>The loop \<open>for i in range(max_lines)\<close>, over the indices still to visit.\<close>

fun diff_loop :: "str list \<Rightarrow> str list \<Rightarrow> nat list \<Rightarrow> difference list \<Rightarrow> difference list" where
  "diff_loop lines1 lines2 [] diff_list = diff_list"
| "diff_loop lines1 lines2 (i # rest) diff_list =
     (let line1 = line_at lines1 i; line2 = line_at lines2 i
      in diff_loop lines1 lines2 rest
           (if line1 \<noteq> line2
            then diff_list @ [\<lparr>line_number = i + 1, old_value = line1, new_value = line2\<rparr>]
            else diff_list))"

text \<open>The body of the \<open>try\<close>: \<open>Inl\<close> is an exception on its way to the handler.\<close>

definition compare_body ::
  "checker \<Rightarrow> environment \<Rightarrow> str \<Rightarrow> str \<Rightarrow> str \<Rightarrow> exn + comparison_result" where
  "compare_body self env config1_path config2_path device_name =
     (case read_text env config1_path of
        Inl e \<Rightarrow> Inl e
      | Inr config1_content \<Rightarrow>
     (case read_text env config2_path of
        Inl e \<Rightarrow> Inl e
      | Inr config2_content \<Rightarrow>
     (let filtered1 = filter_ignored_lines (ignore_patterns self) config1_content;
          filtered2 = filter_ignored_lines (ignore_patterns self) config2_content;
          lines1 = splitlines filtered1;
          lines2 = splitlines filtered2;
          max_lines = max (length lines1) (length lines2);
          diff_list = diff_loop lines1 lines2 [0..<max_lines] [];
          same = (length diff_list = 0)
      in Inr \<lparr>identical = same,
              differences_count = length diff_list,
              summary = (if same then ascii ''Configurations are identical''
                         else ascii ''Found '' @ str_of_nat (length diff_list) @ ascii '' differences''),
              differences = diff_list,
              device = device_name,
              config1_file = Some (path_name config1_path),
              config2_file = Some (path_name config2_path),
              comparison_date = Some (isoformat (now env)),
              error = None\<rparr>)))"

definition compare_configs ::
  "checker \<Rightarrow> environment \<Rightarrow> str \<Rightarrow> str \<Rightarrow> str \<Rightarrow> comparison_result" where
  "compare_configs self env config1_path config2_path device_name =
     (case compare_body self env config1_path config2_path device_name of
        Inr result \<Rightarrow> result
      | Inl e \<Rightarrow>
          \<lparr>identical = False,
           differences_count = 0,
           summary = ascii ''Comparison error: '' @ str_of_exn e,
           differences = [],
           device = device_name,
           config1_file = None,
           config2_file = None,
           comparison_date = None,
           error = Some (str_of_exn e)\<rparr>)"

section \<open>Backup selector\<close>

text \<open>
  \<open>backup_files.sort(key=lambda x: x.name, reverse=True)\<close>: a stable sort in
  descending order of the key, files with equal names keeping their order.
\<close>

definition sort_by_name_desc :: "str list \<Rightarrow> str list" where
  "sort_by_name_desc backup_files = rev (sort_key path_name (rev backup_files))"

definition get_all_backups_body :: "checker \<Rightarrow> environment \<Rightarrow> str \<Rightarrow> exn + str list" where
  "get_all_backups_body self env device_name =
     (case path_exists env (backup_dir self) of
        Inl e \<Rightarrow> Inl e
      | Inr there \<Rightarrow>
          if \<not> there then Inr []
          else (case glob env (backup_dir self) (device_name @ ascii ''_*.cfg'') of
                  Inl e \<Rightarrow> Inl e
                | Inr backup_files \<Rightarrow> Inr (sort_by_name_desc backup_files)))"

definition get_all_backups_for_device :: "checker \<Rightarrow> environment \<Rightarrow> str \<Rightarrow> str list" where
  "get_all_backups_for_device self env device_name =
     (case get_all_backups_body self env device_name of
        Inr backup_files \<Rightarrow> backup_files
      | Inl e \<Rightarrow> [])"

text \<open>
  The three shapes of the dictionary \<open>compare_latest_two_backups\<close> returns: too few
  backups (\<open>error\<close>, \<open>device\<close>, \<open>backups_available\<close>), a comparison with the names of
  the two files under \<open>backups_compared\<close> (\<open>previous\<close>, \<open>latest\<close>), and the outer
  handler's (\<open>error\<close>, \<open>device\<close>).
\<close>

datatype latest_two_result =
    Insufficient str str nat
  | Compared comparison_result str str
  | Failed str str

definition compare_latest_two_body ::
  "checker \<Rightarrow> environment \<Rightarrow> str \<Rightarrow> exn + latest_two_result" where
  "compare_latest_two_body self env device_name =
     (let backup_files = get_all_backups_for_device self env device_name
      in if length backup_files < 2
         then Inr (Insufficient
                (ascii ''Insufficient backups: '' @ str_of_nat (length backup_files)
                   @ ascii '' found, need at least 2'')
                device_name (length backup_files))
         else (let latest_backup = backup_files ! 0;
                   previous_backup = backup_files ! 1;
                   comparison_result =
                     compare_configs self env previous_backup latest_backup device_name
               in Inr (Compared comparison_result
                         (path_name previous_backup) (path_name latest_backup))))"

definition compare_latest_two_backups ::
  "checker \<Rightarrow> environment \<Rightarrow> str \<Rightarrow> latest_two_result" where
  "compare_latest_two_backups self env device_name =
     (case compare_latest_two_body self env device_name of
        Inr result \<Rightarrow> result
      | Inl e \<Rightarrow> Failed (str_of_exn e) device_name)"

section \<open>Fleet backup (\<open>MockNetworkBackupTool\<close>)\<close>

record device_descriptor =
  name :: str
  host :: str
  device_type :: str

text \<open>The entries of the \<open>success\<close> and \<open>failed\<close> lists, and the result of a run.\<close>

record device_summary =
  summary_name :: str
  summary_host :: str

record backup_results =
  success :: "device_summary list"
  failed :: "device_summary list"
  timestamp :: str
  total_devices :: nat
  results_type :: str

record config_info =
  info_device :: str
  info_filename :: str
  info_timestamp :: str
  info_size :: nat
  info_type :: str

text \<open>
  What a file of the backup directory holds: the text of a snapshot, or the dictionary
  that \<open>json.dump\<close> wrote.
\<close>

datatype file_content =
    ConfigText str
  | InfoJson config_info
  | ResultsJson backup_results

text \<open>
  The world the tool runs in. \<open>rng\<close> numbers the values that the calls of
  \<open>random.random()\<close> return, \<open>rng_pos\<close> counting the calls made; \<open>clock\<close> and \<open>ticks\<close>
  do the same for \<open>datetime.now()\<close>. \<open>files\<close> is the content of the file system, and
  \<open>write_error\<close> gives, for a path, the exception that opening it for writing raises,
  if any. The sleeps of \<open>simulate_connection_delay\<close> change nothing that is observed;
  their \<open>random.uniform\<close> draws, like the \<open>random.randint\<close> draws and the clock
  readings inside the generated texts, are not numbered in \<open>rng\<close> and \<open>clock\<close>.
\<close>

record world =
  rng :: "nat \<Rightarrow> real"
  rng_pos :: nat
  clock :: "nat \<Rightarrow> datetime"
  ticks :: nat
  files :: "str \<Rightarrow> file_content option"
  write_error :: "str \<Rightarrow> exn option"

text \<open>
  The fields of the tool that a backup run reads. \<open>mock_configs\<close> maps a device type to
  the generator of its configuration text and \<open>generate_cisco_config\<close> is the generator
  used for every other type; a generator is taken as a function of the device name.
\<close>

record tool =
  devices :: "device_descriptor list"
  tool_backup_dir :: str
  mock_configs :: "str \<Rightarrow> (str \<Rightarrow> str) option"
  generate_cisco_config :: "str \<Rightarrow> str"

definition random_random :: "world \<Rightarrow> real \<times> world" where
  "random_random w = (rng w (rng_pos w), w\<lparr>rng_pos := Suc (rng_pos w)\<rparr>)"

definition datetime_now :: "world \<Rightarrow> datetime \<times> world" where
  "datetime_now w = (clock w (ticks w), w\<lparr>ticks := Suc (ticks w)\<rparr>)"

text \<open>\<open>with open(path, 'w') as f: ...\<close>.\<close>

definition write_file :: "world \<Rightarrow> str \<Rightarrow> file_content \<Rightarrow> exn + world" where
  "write_file w path content =
     (case write_error w path of
        Some e \<Rightarrow> Inl e
      | None \<Rightarrow> Inr (w\<lparr>files := (files w)(path \<mapsto> content)\<rparr>))"

text \<open>
  \<open>connect_to_device\<close>: the connection (a dictionary holding the device), or \<open>None\<close>
  when the simulated timeout is raised and caught.
\<close>

definition connect_to_device :: "world \<Rightarrow> device_descriptor \<Rightarrow> device_descriptor option \<times> world" where
  "connect_to_device w dev =
     (let (r, w1) = random_random w
      in if r < 0.1 then (None, w1) else (Some dev, w1))"

text \<open>
  \<open>get_device_config\<close>: the generated text, or \<open>None\<close> when the simulated retrieval
  error is raised and caught.
\<close>

definition get_device_config ::
  "tool \<Rightarrow> world \<Rightarrow> device_descriptor \<Rightarrow> str \<Rightarrow> str option \<times> world" where
  "get_device_config self w connection dtype =
     (let device_name = name connection;
          config_generator =
            (case mock_configs self dtype of
               Some g \<Rightarrow> g
             | None \<Rightarrow> generate_cisco_config self);
          config = config_generator device_name;
          (r, w1) = random_random w
      in if r < 0.05 then (None, w1) else (Some config, w1))"

text \<open>
  The part of \<open>backup_single_device\<close> under \<open>try\<close>, after the configuration has been
  found to be non-empty: \<open>Inl\<close> is an exception on its way to the handler, with the
  world as the exception left it.
\<close>

definition save_backup ::
  "tool \<Rightarrow> world \<Rightarrow> device_descriptor \<Rightarrow> str \<Rightarrow> (exn \<times> world) + world" where
  "save_backup self w dev config =
     (let (t, w1) = datetime_now w;
          filename = snapshot_filename (name dev) t;
          filepath = joinpath (tool_backup_dir self) filename
      in case write_file w1 filepath (ConfigText config) of
           Inl e \<Rightarrow> Inl (e, w1)
         | Inr w2 \<Rightarrow>
             (let (t2, w3) = datetime_now w2;
                  info = \<lparr>info_device = name dev,
                          info_filename = filename,
                          info_timestamp = isoformat t2,
                          info_size = length config,
                          info_type = ascii ''mock_backup''\<rparr>;
                  info_file = joinpath (tool_backup_dir self) (name dev @ ascii ''_info.json'')
              in case write_file w3 info_file (InfoJson info) of
                   Inl e \<Rightarrow> Inl (e, w3)
                 | Inr w4 \<Rightarrow> Inr w4))"

definition backup_single_device :: "tool \<Rightarrow> world \<Rightarrow> device_descriptor \<Rightarrow> bool \<times> world" where
  "backup_single_device self w dev =
     (case connect_to_device w dev of
        (None, w1) \<Rightarrow> (False, w1)
      | (Some connection, w1) \<Rightarrow>
          (case get_device_config self w1 connection (device_type dev) of
             (None, w2) \<Rightarrow> (False, w2)
           | (Some config, w2) \<Rightarrow>
               if config = [] then (False, w2)
               else (case save_backup self w2 dev config of
                       Inl (e, w3) \<Rightarrow> (False, w3)
                     | Inr w3 \<Rightarrow> (True, w3))))"

text \<open>One turn of the loop \<open>for device in self.devices\<close>.\<close>

definition backup_step ::
  "tool \<Rightarrow> backup_results \<times> world \<Rightarrow> device_descriptor \<Rightarrow> backup_results \<times> world" where
  "backup_step self st dev =
     (let (results, w) = st;
          (ok, w1) = backup_single_device self w dev;
          entry = \<lparr>summary_name = name dev, summary_host = host dev\<rparr>
      in if ok then (results\<lparr>success := success results @ [entry]\<rparr>, w1)
         else (results\<lparr>failed := failed results @ [entry]\<rparr>, w1))"

fun backup_loop ::
  "tool \<Rightarrow> backup_results \<times> world \<Rightarrow> device_descriptor list \<Rightarrow> backup_results \<times> world" where
  "backup_loop self st [] = st"
| "backup_loop self st (dev # rest) = backup_loop self (backup_step self st dev) rest"

text \<open>
  \<open>backup_all_devices\<close>. Writing \<open>backup_results.json\<close> is outside every \<open>try\<close>: an
  exception there leaves the method.
\<close>

definition backup_all_devices :: "tool \<Rightarrow> world \<Rightarrow> exn + (backup_results \<times> world)" where
  "backup_all_devices self w =
     (let (t, w1) = datetime_now w;
          results = \<lparr>success = [], failed = [], timestamp = isoformat t,
                     total_devices = length (devices self),
                     results_type = ascii ''mock_backup''\<rparr>;
          (results', w2) = backup_loop self (results, w1) (devices self);
          results_file = joinpath (tool_backup_dir self) (ascii ''backup_results.json'')
      in case write_file w2 results_file (ResultsJson results') of
           Inl e \<Rightarrow> Inl e
         | Inr w3 \<Rightarrow> Inr (results', w3))"

section \<open>Examples\<close>

text \<open>
  An environment in which every path exists, \<open>glob\<close> yields a given list of paths and
  the files that can be read are those of an association list; and a checker with the
  default patterns.
\<close>

definition fixture_env :: "(str \<times> str) list \<Rightarrow> str list \<Rightarrow> environment" where
  "fixture_env texts listing =
     \<lparr>path_exists = (\<lambda>p. Inr True),
      glob = (\<lambda>d pattern. Inr listing),
      read_text = (\<lambda>p. case map_of texts p of
                          Some t \<Rightarrow> Inr t
                        | None \<Rightarrow> Inl (Exception (ascii ''No such file or directory''))),
      now = \<lparr>year = 2024, month = 1, day = 2, hour = 3, minute = 4, second = 5,
             microsecond = 0\<rparr>\<rparr>"

definition default_checker :: checker where
  "default_checker = \<lparr>ignore_patterns = default_patterns, backup_dir = ascii ''./backups''\<rparr>"

text \<open>
  A world with given random draws, a clock that advances by a second at each reading,
  no file and no write error; and a tool whose device types all fall back on one
  generator.
\<close>

definition fixture_world :: "(nat \<Rightarrow> real) \<Rightarrow> world" where
  "fixture_world draws =
     \<lparr>rng = draws, rng_pos = 0,
      clock = (\<lambda>n. \<lparr>year = 2024, month = 1, day = 2, hour = 3, minute = 4,
                      second = n mod 60, microsecond = 0\<rparr>),
      ticks = 0, files = (\<lambda>p. None), write_error = (\<lambda>p. None)\<rparr>"

definition fixture_tool :: "device_descriptor list \<Rightarrow> (str \<Rightarrow> str) \<Rightarrow> tool" where
  "fixture_tool devs generator =
     \<lparr>devices = devs, tool_backup_dir = ascii ''backups'', mock_configs = (\<lambda>t. None),
      generate_cisco_config = generator\<rparr>"

section \<open>Properties of the normalizer\<close>

lemma filter_loop_eq:
  "filter_loop P ls acc = acc @ filter (\<lambda>l. \<not> ignore_line P l) ls"
  by (induction ls arbitrary: acc) simp_all

lemma ignore_line_iff:
  "ignore_line P l \<longleftrightarrow> (\<exists>p\<in>set P. startswith (strip l) p)"
  by (induction P) auto

lemma startswith_iff: "startswith s p \<longleftrightarrow> (\<exists>rest. s = p @ rest)"
  unfolding startswith_def
  by (metis append_eq_conv_conj append_take_drop_id)

lemma splitlines_Nil: "splitlines [] = []"
  by (simp add: splitlines_def)

lemma filter_ignored_lines_eq:
  "filter_ignored_lines P t = join_nl (filter (\<lambda>l. \<not> ignore_line P l) (splitlines t))"
  by (simp add: filter_ignored_lines_def filter_loop_eq splitlines_Nil)

lemma linebreak_10: "is_linebreak 10" by (simp add: is_linebreak_def)
lemma linebreak_13: "is_linebreak 13" by (simp add: is_linebreak_def)

lemma splitlines_from_append:
  "no_linebreak x \<Longrightarrow> splitlines_from cur (x @ r) = splitlines_from (cur @ x) r"
proof (induction x arbitrary: cur)
  case Nil
  then show ?case by simp
next
  case (Cons c x)
  then have "\<not> is_linebreak c" "no_linebreak x" by (simp_all add: no_linebreak_def)
  moreover from this have "c \<noteq> 13" using linebreak_13 by blast
  ultimately show ?case using Cons.IH [of "cur @ [c]"] by simp
qed

lemma splitlines_from_newline:
  "splitlines_from cur (10 # r) = cur # splitlines_from [] r"
  by (simp add: linebreak_10)

lemma splitlines_from_join:
  "\<forall>l\<in>set (x # xs). no_linebreak l \<Longrightarrow>
   splitlines_from cur (join_nl (x # xs)) = drop_last_empty ((cur @ x) # xs)"
proof (induction xs arbitrary: x cur)
  case Nil
  then have "splitlines_from cur (x @ []) = splitlines_from (cur @ x) []"
    by (intro splitlines_from_append) simp
  then show ?case by (simp add: drop_last_empty_def)
next
  case (Cons y ys)
  then have x: "no_linebreak x" and rest: "\<forall>l\<in>set (y # ys). no_linebreak l" by simp_all
  have "splitlines_from cur (join_nl (x # y # ys)) = splitlines_from (cur @ x) (10 # join_nl (y # ys))"
    using splitlines_from_append [OF x, of cur "10 # join_nl (y # ys)"] by simp
  also have "\<dots> = (cur @ x) # splitlines_from [] (join_nl (y # ys))"
    by (rule splitlines_from_newline)
  also have "\<dots> = (cur @ x) # drop_last_empty (y # ys)"
    using Cons.IH [OF rest, of "[]"] by simp
  also have "\<dots> = drop_last_empty ((cur @ x) # y # ys)"
    by (simp add: drop_last_empty_def)
  finally show ?case .
qed

lemma splitlines_join:
  "\<forall>l\<in>set ls. no_linebreak l \<Longrightarrow> splitlines (join_nl ls) = drop_last_empty ls"
proof (cases ls)
  case Nil
  then show ?thesis by (simp add: splitlines_def drop_last_empty_def)
next
  case (Cons x xs)
  assume "\<forall>l\<in>set ls. no_linebreak l"
  with Cons show ?thesis
    using splitlines_from_join [of x xs "[]"] by (simp add: splitlines_def)
qed

lemma splitlines_from_no_linebreak:
  "no_linebreak cur \<Longrightarrow> \<forall>l\<in>set (splitlines_from cur s). no_linebreak l"
proof (induction cur s rule: splitlines_from.induct)
  case (1 cur)
  then show ?case by simp
next
  case (2 cur c cs)
  have e: "no_linebreak []" by (simp add: no_linebreak_def)
  show ?case
  proof (cases "c = 13")
    case True
    show ?thesis
    proof (cases cs)
      case Nil
      with True "2.prems" show ?thesis by simp
    next
      case (Cons d ds)
      show ?thesis
      proof (cases "d = 10")
        case d: True
        have "\<forall>l\<in>set (splitlines_from [] ds). no_linebreak l"
          using "2.IH"(1) [OF True Cons d e] .
        with True Cons d "2.prems" show ?thesis by simp
      next
        case d: False
        have "\<forall>l\<in>set (splitlines_from [] (d # ds)). no_linebreak l"
          using "2.IH"(2) [OF True Cons d e] .
        with True Cons d "2.prems" show ?thesis by simp
      qed
    qed
  next
    case c: False
    show ?thesis
    proof (cases "is_linebreak c")
      case True
      have "\<forall>l\<in>set (splitlines_from [] cs). no_linebreak l"
        using "2.IH"(3) [OF c True e] .
      with c True "2.prems" show ?thesis by simp
    next
      case False
      then have "no_linebreak (cur @ [c])" using "2.prems" by (simp add: no_linebreak_def)
      then have "\<forall>l\<in>set (splitlines_from (cur @ [c]) cs). no_linebreak l"
        using "2.IH"(4) [OF c False] by blast
      with c False show ?thesis by simp
    qed
  qed
qed

lemma splitlines_no_linebreak: "\<forall>l\<in>set (splitlines s). no_linebreak l"
  unfolding splitlines_def by (rule splitlines_from_no_linebreak) (simp add: no_linebreak_def)

lemma join_nl_snoc: "ls \<noteq> [] \<Longrightarrow> join_nl (ls @ [l]) = join_nl ls @ [10] @ l"
  by (induction ls rule: join_nl.induct) simp_all

lemma join_nl_last:
  "ls \<noteq> [] \<Longrightarrow> last ls \<noteq> [] \<Longrightarrow> join_nl ls \<noteq> [] \<and> last (join_nl ls) = last (last ls)"
  by (induction ls rule: join_nl.induct) simp_all

lemma filter_kept:
  "set ks \<subseteq> set (filter Q ls) \<Longrightarrow> filter Q ks = ks"
  by (induction ks) auto

lemma filter_twice_eq:
  "filter_ignored_lines P (filter_ignored_lines P t) =
     (if ends_with_newline (filter_ignored_lines P t) then butlast (filter_ignored_lines P t)
      else filter_ignored_lines P t)"
proof -
  define Q where "Q = (\<lambda>l. \<not> ignore_line P l)"
  define K where "K = filter Q (splitlines t)"
  have out: "filter_ignored_lines P t = join_nl K"
    by (simp add: filter_ignored_lines_eq K_def Q_def)
  have nlb: "\<forall>l\<in>set K. no_linebreak l"
    using splitlines_no_linebreak [of t] by (simp add: K_def)
  have again: "filter_ignored_lines P (join_nl K) = join_nl (filter Q (drop_last_empty K))"
    by (simp add: filter_ignored_lines_eq splitlines_join [OF nlb] Q_def)
  have sub: "set (drop_last_empty K) \<subseteq> set (filter Q (splitlines t))"
    unfolding drop_last_empty_def K_def [symmetric] by (auto dest: in_set_butlastD)
  have kept: "filter Q (drop_last_empty K) = drop_last_empty K"
    by (rule filter_kept [OF sub])
  have twice: "filter_ignored_lines P (join_nl K) = join_nl (drop_last_empty K)"
    by (simp add: again kept)
  consider (nolines) "K = []" | (nonblank) "K \<noteq> []" "last K \<noteq> []"
    | (single) "K = [[]]" | (trailing) M where "K = M @ [[]]" "M \<noteq> []"
  proof (cases "K = []")
    case True
    then show ?thesis using that by blast
  next
    case ne: False
    show ?thesis
    proof (cases "last K = []")
      case False
      with ne show ?thesis using that by blast
    next
      case True
      with ne have "K = butlast K @ [[]]" by (metis append_butlast_last_id)
      then show ?thesis using that by (cases "butlast K = []") auto
    qed
  qed
  then have main: "join_nl (drop_last_empty K) =
      (if ends_with_newline (join_nl K) then butlast (join_nl K) else join_nl K)"
  proof cases
    case nolines
    then show ?thesis by (simp add: drop_last_empty_def ends_with_newline_def)
  next
    case nonblank
    have "last (last K) \<in> set (last K)" using nonblank by simp
    moreover have "last K \<in> set K" using nonblank by simp
    ultimately have "\<not> is_linebreak (last (last K))" using nlb by (auto simp: no_linebreak_def)
    then have "last (last K) \<noteq> 10" using linebreak_10 by metis
    then have "\<not> ends_with_newline (join_nl K)"
      using join_nl_last [OF nonblank] by (simp add: ends_with_newline_def)
    then show ?thesis using nonblank by (simp add: drop_last_empty_def)
  next
    case single
    then show ?thesis by (simp add: drop_last_empty_def ends_with_newline_def)
  next
    case trailing
    then have j: "join_nl K = join_nl M @ [10]" by (simp add: join_nl_snoc)
    have "drop_last_empty K = M" using trailing by (simp add: drop_last_empty_def)
    then show ?thesis by (simp add: j ends_with_newline_def)
  qed
  show ?thesis unfolding out twice by (rule main)
qed

lemma dropWhile_all_iff:
  "(\<forall>x\<in>set (dropWhile Q l). Q x) \<longleftrightarrow> (\<forall>x\<in>set l. Q x)"
proof
  assume a: "\<forall>x\<in>set (dropWhile Q l). Q x"
  have "dropWhile Q l = []"
  proof (rule ccontr)
    assume ne: "dropWhile Q l \<noteq> []"
    then have "\<not> Q (hd (dropWhile Q l))" by (rule hd_dropWhile)
    moreover have "hd (dropWhile Q l) \<in> set (dropWhile Q l)" using ne by simp
    ultimately show False using a by blast
  qed
  then show "\<forall>x\<in>set l. Q x" by simp
next
  assume "\<forall>x\<in>set l. Q x"
  then show "\<forall>x\<in>set (dropWhile Q l). Q x" by (blast dest: set_dropWhileD)
qed

lemma strip_blank_iff: "strip l = [] \<longleftrightarrow> (\<forall>c\<in>set l. is_space c)"
  by (simp add: strip_def lstrip_def rstrip_def dropWhile_all_iff)

lemma blank_not_ignored:
  "\<forall>p\<in>set P. p \<noteq> [] \<Longrightarrow> strip l = [] \<Longrightarrow> \<not> ignore_line P l"
  by (auto simp: ignore_line_iff startswith_def)

lemma default_patterns_nonempty: "\<forall>p\<in>set default_patterns. p \<noteq> []"
  by (simp add: default_patterns_def ascii_def)

lemma ignore_line_cong: "set P' = set P \<Longrightarrow> ignore_line P' l = ignore_line P l"
  by (simp add: ignore_line_iff)


lemma filter_filter_absorb:
  "(\<And>x. A x \<Longrightarrow> B x) \<Longrightarrow> filter A (filter B xs) = filter A xs"
  by (induction xs) auto

lemmas text_eval =
  filter_ignored_lines_def splitlines_def is_linebreak_def startswith_def strip_def lstrip_def
  rstrip_def is_space_def default_patterns_def ascii_def

text \<open>
  C8. The normalizer drops exactly the lines whose stripped form starts with one of the
  patterns (the same code points, in the same order) and keeps every other line as it
  stands in the text, unstripped; so the output is the same for every permutation of
  the pattern list.
\<close>

theorem filter_drops_exactly_matching_lines:
  "filter_ignored_lines P text =
     join_nl (filter (\<lambda>line. \<not> (\<exists>p\<in>set P. \<exists>rest. strip line = p @ rest)) (splitlines text))
   \<and> (\<forall>P'. mset P' = mset P \<longrightarrow> filter_ignored_lines P' text = filter_ignored_lines P text)"
proof
  show "filter_ignored_lines P text =
     join_nl (filter (\<lambda>line. \<not> (\<exists>p\<in>set P. \<exists>rest. strip line = p @ rest)) (splitlines text))"
    by (simp add: filter_ignored_lines_eq ignore_line_iff startswith_iff)
next
  show "\<forall>P'. mset P' = mset P \<longrightarrow> filter_ignored_lines P' text = filter_ignored_lines P text"
  proof (intro allI impI)
    fix P' :: "str list"
    assume "mset P' = mset P"
    then have "set P' = set P" by (rule mset_eq_setD)
    then have "\<And>l. ignore_line P' l = ignore_line P l" by (rule ignore_line_cong)
    then show "filter_ignored_lines P' text = filter_ignored_lines P text"
      by (simp add: filter_ignored_lines_eq)
  qed
qed

theorem filter_drops_exactly_matching_lines_witness:
  "mset (rev default_patterns) = mset default_patterns
   \<and> filter_ignored_lines (rev default_patterns)
        (ascii ''!'' @ [10] @ ascii ''  ! Last configuration change'' @ [10] @ ascii '' hostname x'')
     = filter_ignored_lines default_patterns
        (ascii ''!'' @ [10] @ ascii ''  ! Last configuration change'' @ [10] @ ascii '' hostname x'')
   \<and> filter_ignored_lines default_patterns
        (ascii ''!'' @ [10] @ ascii ''  ! Last configuration change'' @ [10] @ ascii '' hostname x'')
     = ascii '' hostname x''"
proof -
  have m: "mset (rev default_patterns) = mset default_patterns"
    by simp
  have "\<forall>P'. mset P' = mset default_patterns \<longrightarrow>
      filter_ignored_lines P'
        (ascii ''!'' @ [10] @ ascii ''  ! Last configuration change'' @ [10] @ ascii '' hostname x'')
      = filter_ignored_lines default_patterns
        (ascii ''!'' @ [10] @ ascii ''  ! Last configuration change'' @ [10] @ ascii '' hostname x'')"
    using filter_drops_exactly_matching_lines by (rule conjunct2)
  with m have p: "filter_ignored_lines (rev default_patterns)
        (ascii ''!'' @ [10] @ ascii ''  ! Last configuration change'' @ [10] @ ascii '' hostname x'')
     = filter_ignored_lines default_patterns
        (ascii ''!'' @ [10] @ ascii ''  ! Last configuration change'' @ [10] @ ascii '' hostname x'')"
    by blast
  have v: "filter_ignored_lines default_patterns
        (ascii ''!'' @ [10] @ ascii ''  ! Last configuration change'' @ [10] @ ascii '' hostname x'')
     = ascii '' hostname x''"
    by (simp add: text_eval)
  from m p v show ?thesis by blast
qed

text \<open>
  C10. When no pattern is the empty string, as in the default list, a line that is empty
  or made of whitespace only is never dropped: the lines the normalizer joins contain
  the blank lines of the text, all of them and in their order.
\<close>

theorem blank_lines_are_kept:
  assumes "\<forall>p\<in>set P. p \<noteq> []"
  shows "filter_ignored_lines P text = join_nl (filter_loop P (splitlines text) [])
     \<and> filter (\<lambda>l. \<forall>c\<in>set l. is_space c) (filter_loop P (splitlines text) [])
         = filter (\<lambda>l. \<forall>c\<in>set l. is_space c) (splitlines text)
     \<and> (\<forall>p\<in>set default_patterns. p \<noteq> [])"
proof (intro conjI)
  show "filter_ignored_lines P text = join_nl (filter_loop P (splitlines text) [])"
    by (simp add: filter_ignored_lines_eq filter_loop_eq)
next
  have "\<And>l. (\<forall>c\<in>set l. is_space c) \<Longrightarrow> \<not> ignore_line P l"
    using assms blank_not_ignored strip_blank_iff by blast
  then have "filter (\<lambda>l. \<forall>c\<in>set l. is_space c) (filter (\<lambda>l. \<not> ignore_line P l) (splitlines text))
         = filter (\<lambda>l. \<forall>c\<in>set l. is_space c) (splitlines text)"
    by (rule filter_filter_absorb)
  then show "filter (\<lambda>l. \<forall>c\<in>set l. is_space c) (filter_loop P (splitlines text) [])
         = filter (\<lambda>l. \<forall>c\<in>set l. is_space c) (splitlines text)"
    by (simp only: filter_loop_eq append_Nil)
next
  show "\<forall>p\<in>set default_patterns. p \<noteq> []"
    by (rule default_patterns_nonempty)
qed

theorem blank_lines_are_kept_witness:
  "filter (\<lambda>l. \<forall>c\<in>set l. is_space c)
      (filter_loop default_patterns (splitlines (ascii ''a'' @ [10, 32, 9, 10] @ ascii ''#b'')) [])
    = filter (\<lambda>l. \<forall>c\<in>set l. is_space c) (splitlines (ascii ''a'' @ [10, 32, 9, 10] @ ascii ''#b''))
   \<and> filter (\<lambda>l. \<forall>c\<in>set l. is_space c) (splitlines (ascii ''a'' @ [10, 32, 9, 10] @ ascii ''#b''))
      = [[32, 9]]"
proof -
  have ne: "\<forall>p\<in>set default_patterns. p \<noteq> []"
    by (rule default_patterns_nonempty)
  have v: "filter (\<lambda>l. \<forall>c\<in>set l. is_space c) (splitlines (ascii ''a'' @ [10, 32, 9, 10] @ ascii ''#b''))
      = [[32, 9]]"
    by (simp add: text_eval)
  from blank_lines_are_kept [OF ne] v show ?thesis by blast
qed

text \<open>
  C4, as the code has it. Applying the normalizer to its own output changes nothing when
  that output does not end with a newline. When it does (the last line kept is empty and
  is not the only one), the second application removes this last newline, since
  \<open>splitlines\<close> reads no empty line after a final line boundary.
\<close>

theorem filter_twice:
  "(\<not> ends_with_newline (filter_ignored_lines P text) \<longrightarrow>
      filter_ignored_lines P (filter_ignored_lines P text) = filter_ignored_lines P text)
   \<and> (ends_with_newline (filter_ignored_lines P text) \<longrightarrow>
      filter_ignored_lines P (filter_ignored_lines P text) = butlast (filter_ignored_lines P text))"
  by (simp add: filter_twice_eq)

theorem filter_twice_witness:
  "\<not> ends_with_newline (filter_ignored_lines default_patterns (ascii ''a'' @ [10] @ ascii ''#c''))
   \<and> filter_ignored_lines default_patterns
        (filter_ignored_lines default_patterns (ascii ''a'' @ [10] @ ascii ''#c''))
      = filter_ignored_lines default_patterns (ascii ''a'' @ [10] @ ascii ''#c'')
   \<and> ends_with_newline (filter_ignored_lines default_patterns (ascii ''a'' @ [10, 10]))
   \<and> filter_ignored_lines default_patterns
        (filter_ignored_lines default_patterns (ascii ''a'' @ [10, 10]))
      = butlast (filter_ignored_lines default_patterns (ascii ''a'' @ [10, 10]))"
proof -
  have e1: "\<not> ends_with_newline (filter_ignored_lines default_patterns (ascii ''a'' @ [10] @ ascii ''#c''))"
    by (simp add: text_eval ends_with_newline_def)
  have e2: "ends_with_newline (filter_ignored_lines default_patterns (ascii ''a'' @ [10, 10]))"
    by (simp add: text_eval ends_with_newline_def)
  from filter_twice [of default_patterns "ascii ''a'' @ [10] @ ascii ''#c''"]
    filter_twice [of default_patterns "ascii ''a'' @ [10, 10]"] e1 e2
  show ?thesis by blast
qed

text \<open>
  C4 fails as stated. The text \<open>"a\n\n"\<close> shows that the normalizer is not idempotent:
  its output is \<open>"a\n"\<close>, and the output of the normalizer on that is \<open>"a"\<close>.
\<close>

theorem filter_not_idempotent:
  "filter_ignored_lines default_patterns
     (filter_ignored_lines default_patterns (ascii ''a'' @ [10, 10]))
   \<noteq> filter_ignored_lines default_patterns (ascii ''a'' @ [10, 10])"
proof -
  have "filter_ignored_lines default_patterns (ascii ''a'' @ [10, 10]) = [97, 10]"
    by (simp add: text_eval)
  moreover have "filter_ignored_lines default_patterns [97, 10] = [97]"
    by (simp add: text_eval)
  ultimately show ?thesis by simp
qed

section \<open>Properties of the diff engine\<close>

lemma diff_loop_eq:
  "diff_loop l1 l2 idx acc =
     acc @ map (\<lambda>i. \<lparr>line_number = i + 1, old_value = line_at l1 i, new_value = line_at l2 i\<rparr>)
             (filter (\<lambda>i. line_at l1 i \<noteq> line_at l2 i) idx)"
  by (induction idx arbitrary: acc) (simp_all add: Let_def)

lemma compare_body_read:
  assumes "read_text env p1 = Inr ta" and "read_text env p2 = Inr tb"
  shows "\<exists>r. compare_body self env p1 p2 dev = Inr r
     \<and> differences r =
         diff_loop (splitlines (filter_ignored_lines (ignore_patterns self) ta))
           (splitlines (filter_ignored_lines (ignore_patterns self) tb))
           [0..<max (length (splitlines (filter_ignored_lines (ignore_patterns self) ta)))
                    (length (splitlines (filter_ignored_lines (ignore_patterns self) tb)))] []
     \<and> identical r = (differences r = []) \<and> differences_count r = length (differences r)
     \<and> error r = None"
  using assms by (simp add: compare_body_def Let_def)

lemma compare_body_fail:
  assumes "(\<exists>e. read_text env p1 = Inl e) \<or> (\<exists>e. read_text env p2 = Inl e)"
  shows "\<exists>e. compare_body self env p1 p2 dev = Inl e"
  using assms by (auto simp add: compare_body_def split: sum.splits)

lemma compare_body_ok_iff:
  "(\<exists>r. compare_body self env p1 p2 dev = Inr r) \<longleftrightarrow>
     (\<exists>ta tb. read_text env p1 = Inr ta \<and> read_text env p2 = Inr tb)"
  by (auto simp add: compare_body_def Let_def split: sum.splits)

lemma compare_configs_ok:
  "compare_body self env p1 p2 dev = Inr r \<Longrightarrow> compare_configs self env p1 p2 dev = r"
  by (simp add: compare_configs_def)

lemma compare_configs_fail:
  "compare_body self env p1 p2 dev = Inl e \<Longrightarrow>
   compare_configs self env p1 p2 dev =
     \<lparr>identical = False, differences_count = 0,
      summary = ascii ''Comparison error: '' @ str_of_exn e, differences = [], device = dev,
      config1_file = None, config2_file = None, comparison_date = None,
      error = Some (str_of_exn e)\<rparr>"
  by (simp add: compare_configs_def)

lemma count_index:
  "length (filter (\<lambda>j. j = i \<and> Q j) [0..<n]) = (if i < n \<and> Q i then 1 else 0)"
  by (induction n) auto

lemma count_records:
  "length (filter (\<lambda>d. line_number d = i + 1)
     (map (\<lambda>j. \<lparr>line_number = j + 1, old_value = f j, new_value = g j\<rparr>) (filter Q [0..<n])))
   = (if i < n \<and> Q i then 1 else 0)"
proof -
  have "filter (\<lambda>d. line_number d = i + 1)
     (map (\<lambda>j. \<lparr>line_number = j + 1, old_value = f j, new_value = g j\<rparr>) (filter Q [0..<n]))
     = map (\<lambda>j. \<lparr>line_number = j + 1, old_value = f j, new_value = g j\<rparr>)
         (filter (\<lambda>j. j = i \<and> Q j) [0..<n])"
    by (simp add: filter_map comp_def conj_commute)
  then show ?thesis by (simp add: count_index)
qed

lemma line_at_snoc:
  "i < length a \<Longrightarrow> line_at (a @ [l]) i = line_at a i"
  "line_at (a @ [l]) (length a) = l"
  "line_at a (length a) = []"
  by (simp_all add: line_at_def nth_append)

lemma tail_insertion:
  assumes "l \<noteq> []"
  shows "filter (\<lambda>i. line_at a i \<noteq> line_at (a @ [l]) i) [0..<max (length a) (length (a @ [l]))]
     = [length a]"
proof -
  have "filter (\<lambda>i. line_at a i \<noteq> line_at (a @ [l]) i) [0..<length a] = []"
    by (simp add: filter_empty_conv line_at_snoc)
  then show ?thesis using assms by (simp add: line_at_snoc)
qed

lemma compare_configs_differences:
  assumes "read_text env p1 = Inr ta" and "read_text env p2 = Inr tb"
    and "la = splitlines (filter_ignored_lines (ignore_patterns self) ta)"
    and "lb = splitlines (filter_ignored_lines (ignore_patterns self) tb)"
  shows "differences (compare_configs self env p1 p2 dev) =
     map (\<lambda>i. \<lparr>line_number = i + 1, old_value = line_at la i, new_value = line_at lb i\<rparr>)
       (filter (\<lambda>i. line_at la i \<noteq> line_at lb i) [0..<max (length la) (length lb)])"
proof -
  obtain r where r: "compare_body self env p1 p2 dev = Inr r"
    and d: "differences r = diff_loop la lb [0..<max (length la) (length lb)] []"
    using compare_body_read [OF assms(1,2), of self dev] assms(3,4) by blast
  show ?thesis
    by (simp add: compare_configs_ok [OF r] d diff_loop_eq)
qed

lemmas fixture_eval = fixture_env_def default_checker_def text_eval

text \<open>
  C2, as the code has it. When both texts are read, the differences are, in the order of
  the indices, one record for each index below the larger of the two numbers of lines at
  which the two lines differ, a missing line counting as the empty string; no index has
  two records. When the second sequence is the first one followed by one more line, and
  that line is not empty, there is one record, with the empty string as old value.
\<close>

theorem differences_are_positional:
  assumes "read_text env p1 = Inr text_a" and "read_text env p2 = Inr text_b"
    and "lines_a = splitlines (filter_ignored_lines (ignore_patterns self) text_a)"
    and "lines_b = splitlines (filter_ignored_lines (ignore_patterns self) text_b)"
  shows "differences (compare_configs self env p1 p2 dev) =
       map (\<lambda>i. \<lparr>line_number = i + 1, old_value = line_at lines_a i,
                  new_value = line_at lines_b i\<rparr>)
         (filter (\<lambda>i. line_at lines_a i \<noteq> line_at lines_b i)
            [0..<max (length lines_a) (length lines_b)])
     \<and> (\<forall>i. length (filter (\<lambda>d. line_number d = i + 1)
                (differences (compare_configs self env p1 p2 dev)))
           = (if i < max (length lines_a) (length lines_b)
                  \<and> line_at lines_a i \<noteq> line_at lines_b i then 1 else 0))
     \<and> (\<forall>l. l \<noteq> [] \<and> lines_b = lines_a @ [l] \<longrightarrow>
           differences (compare_configs self env p1 p2 dev)
           = [\<lparr>line_number = length lines_a + 1, old_value = [], new_value = l\<rparr>])"
proof (intro conjI allI impI)
  note closed = compare_configs_differences [OF assms, of dev]
  show "differences (compare_configs self env p1 p2 dev) =
       map (\<lambda>i. \<lparr>line_number = i + 1, old_value = line_at lines_a i,
                  new_value = line_at lines_b i\<rparr>)
         (filter (\<lambda>i. line_at lines_a i \<noteq> line_at lines_b i)
            [0..<max (length lines_a) (length lines_b)])"
    by (rule closed)
  show "length (filter (\<lambda>d. line_number d = i + 1)
                (differences (compare_configs self env p1 p2 dev)))
           = (if i < max (length lines_a) (length lines_b)
                  \<and> line_at lines_a i \<noteq> line_at lines_b i then 1 else 0)" for i
    unfolding closed by (rule count_records)
  show "differences (compare_configs self env p1 p2 dev)
           = [\<lparr>line_number = length lines_a + 1, old_value = [], new_value = l\<rparr>]"
    if "l \<noteq> [] \<and> lines_b = lines_a @ [l]" for l
  proof -
    from that have l: "l \<noteq> []" and b: "lines_b = lines_a @ [l]" by simp_all
    show ?thesis
      unfolding closed b tail_insertion [OF l] by (simp add: line_at_snoc)
  qed
qed

theorem differences_are_positional_witness:
  "differences (compare_configs default_checker
      (fixture_env [(ascii ''old.cfg'', ascii ''a'' @ [10] @ ascii ''b''),
                    (ascii ''new.cfg'', ascii ''a'' @ [10] @ ascii ''b'' @ [10] @ ascii ''c'')] [])
      (ascii ''old.cfg'') (ascii ''new.cfg'') (ascii ''sw1''))
   = [\<lparr>line_number = 3, old_value = [], new_value = ascii ''c''\<rparr>]"
proof -
  let ?env = "fixture_env [(ascii ''old.cfg'', ascii ''a'' @ [10] @ ascii ''b''),
                    (ascii ''new.cfg'', ascii ''a'' @ [10] @ ascii ''b'' @ [10] @ ascii ''c'')] []"
  have r1: "read_text ?env (ascii ''old.cfg'') = Inr (ascii ''a'' @ [10] @ ascii ''b'')"
    by (simp add: fixture_env_def ascii_def)
  have r2: "read_text ?env (ascii ''new.cfg'') = Inr (ascii ''a'' @ [10] @ ascii ''b'' @ [10] @ ascii ''c'')"
    by (simp add: fixture_env_def ascii_def)
  have la: "[[97], [98]] = splitlines (filter_ignored_lines (ignore_patterns default_checker)
      (ascii ''a'' @ [10] @ ascii ''b''))"
    by (simp add: fixture_eval)
  have lb: "[[97], [98]] @ [[99]] = splitlines (filter_ignored_lines (ignore_patterns default_checker)
      (ascii ''a'' @ [10] @ ascii ''b'' @ [10] @ ascii ''c''))"
    by (simp add: fixture_eval)
  have "differences (compare_configs default_checker ?env (ascii ''old.cfg'') (ascii ''new.cfg'')
      (ascii ''sw1''))
    = [\<lparr>line_number = length [[97], [98::nat]] + 1, old_value = [], new_value = [99]\<rparr>]"
    using differences_are_positional [OF r1 r2 la lb, of "ascii ''sw1''"] by blast
  then show ?thesis by (simp add: ascii_def)
qed

text \<open>
  The last part of C2 fails as stated. Here are two comparisons with \<open>"a"\<close> as the
  first text. The text \<open>"a\n\n"\<close> has the lines of \<open>"a"\<close> and one more line,
  which is empty; the text \<open>"a\n\n\n"\<close> still has them and one more empty line
  after normalization and splitting. Neither comparison produces a record.
\<close>

theorem empty_extra_line_gives_no_record:
  "splitlines (ascii ''a'' @ [10, 10]) = splitlines (ascii ''a'') @ [[]]
   \<and> differences (compare_configs default_checker
        (fixture_env [(ascii ''old.cfg'', ascii ''a''),
                      (ascii ''new.cfg'', ascii ''a'' @ [10, 10])] [])
        (ascii ''old.cfg'') (ascii ''new.cfg'') (ascii ''sw1'')) = []
   \<and> splitlines (filter_ignored_lines default_patterns (ascii ''a'' @ [10, 10, 10]))
     = splitlines (filter_ignored_lines default_patterns (ascii ''a'')) @ [[]]
   \<and> differences (compare_configs default_checker
        (fixture_env [(ascii ''old.cfg'', ascii ''a''),
                      (ascii ''new.cfg'', ascii ''a'' @ [10, 10, 10])] [])
        (ascii ''old.cfg'') (ascii ''new.cfg'') (ascii ''sw1'')) = []"
proof (intro conjI)
  show "splitlines (ascii ''a'' @ [10, 10]) = splitlines (ascii ''a'') @ [[]]"
    by (simp add: text_eval)
next
  let ?env = "fixture_env [(ascii ''old.cfg'', ascii ''a''),
                      (ascii ''new.cfg'', ascii ''a'' @ [10, 10])] []"
  have r1: "read_text ?env (ascii ''old.cfg'') = Inr (ascii ''a'')"
    by (simp add: fixture_env_def ascii_def)
  have r2: "read_text ?env (ascii ''new.cfg'') = Inr (ascii ''a'' @ [10, 10])"
    by (simp add: fixture_env_def ascii_def)
  have la: "[[97]] = splitlines (filter_ignored_lines (ignore_patterns default_checker) (ascii ''a''))"
    by (simp add: fixture_eval)
  have lb: "[[97]] = splitlines (filter_ignored_lines (ignore_patterns default_checker)
      (ascii ''a'' @ [10, 10]))"
    by (simp add: fixture_eval)
  have idx: "[0..<max (length [[97::nat]]) (length [[97::nat]])] = [0]"
    by (simp add: upt_rec)
  show "differences (compare_configs default_checker ?env (ascii ''old.cfg'') (ascii ''new.cfg'')
      (ascii ''sw1'')) = []"
    unfolding compare_configs_differences [OF r1 r2 la lb] idx
    by (simp add: line_at_def)
next
  show "splitlines (filter_ignored_lines default_patterns (ascii ''a'' @ [10, 10, 10]))
     = splitlines (filter_ignored_lines default_patterns (ascii ''a'')) @ [[]]"
    by (simp add: text_eval)
next
  let ?env = "fixture_env [(ascii ''old.cfg'', ascii ''a''),
                      (ascii ''new.cfg'', ascii ''a'' @ [10, 10, 10])] []"
  have r1: "read_text ?env (ascii ''old.cfg'') = Inr (ascii ''a'')"
    by (simp add: fixture_env_def ascii_def)
  have r2: "read_text ?env (ascii ''new.cfg'') = Inr (ascii ''a'' @ [10, 10, 10])"
    by (simp add: fixture_env_def ascii_def)
  have la: "[[97]] = splitlines (filter_ignored_lines (ignore_patterns default_checker) (ascii ''a''))"
    by (simp add: fixture_eval)
  have lb: "[[97], []] = splitlines (filter_ignored_lines (ignore_patterns default_checker)
      (ascii ''a'' @ [10, 10, 10]))"
    by (simp add: fixture_eval)
  have idx: "[0..<max (length [[97::nat]]) (length [[97::nat], []])] = [0, 1]"
    by (simp add: upt_rec)
  show "differences (compare_configs default_checker ?env (ascii ''old.cfg'') (ascii ''new.cfg'')
      (ascii ''sw1'')) = []"
    unfolding compare_configs_differences [OF r1 r2 la lb] idx
    by (simp add: line_at_def)
qed

text \<open>
  C1, as the code has it. The result carries no error exactly when both texts were read,
  and in such a result \<open>identical\<close> holds if and only if there are no differences.
\<close>

theorem identical_iff_no_differences:
  "(error (compare_configs self env p1 p2 dev) = None \<longleftrightarrow>
      (\<exists>ta tb. read_text env p1 = Inr ta \<and> read_text env p2 = Inr tb))
   \<and> (error (compare_configs self env p1 p2 dev) = None \<longrightarrow>
        identical (compare_configs self env p1 p2 dev)
        = (differences (compare_configs self env p1 p2 dev) = []))"
proof (cases "compare_body self env p1 p2 dev")
  case (Inl e)
  then have "\<not> (\<exists>ta tb. read_text env p1 = Inr ta \<and> read_text env p2 = Inr tb)"
    using compare_body_ok_iff [of self env p1 p2 dev] by simp
  then show ?thesis by (simp add: compare_configs_fail [OF Inl])
next
  case (Inr r)
  then obtain ta tb where reads: "read_text env p1 = Inr ta" "read_text env p2 = Inr tb"
    using compare_body_ok_iff [of self env p1 p2 dev] by blast
  from compare_body_read [OF reads, of self dev] Inr
  have "identical r = (differences r = [])" and "error r = None" by simp_all
  then show ?thesis using reads by (simp add: compare_configs_ok [OF Inr])
qed

theorem identical_iff_no_differences_witness:
  "error (compare_configs default_checker
      (fixture_env [(ascii ''old.cfg'', ascii ''a''), (ascii ''new.cfg'', ascii ''b'')] [])
      (ascii ''old.cfg'') (ascii ''new.cfg'') (ascii ''sw1'')) = None
   \<and> identical (compare_configs default_checker
      (fixture_env [(ascii ''old.cfg'', ascii ''a''), (ascii ''new.cfg'', ascii ''b'')] [])
      (ascii ''old.cfg'') (ascii ''new.cfg'') (ascii ''sw1''))
     = (differences (compare_configs default_checker
      (fixture_env [(ascii ''old.cfg'', ascii ''a''), (ascii ''new.cfg'', ascii ''b'')] [])
      (ascii ''old.cfg'') (ascii ''new.cfg'') (ascii ''sw1'')) = [])"
proof -
  let ?env = "fixture_env [(ascii ''old.cfg'', ascii ''a''), (ascii ''new.cfg'', ascii ''b'')] []"
  have "\<exists>ta tb. read_text ?env (ascii ''old.cfg'') = Inr ta \<and> read_text ?env (ascii ''new.cfg'') = Inr tb"
    by (simp add: fixture_env_def ascii_def)
  with identical_iff_no_differences [of default_checker ?env "ascii ''old.cfg''" "ascii ''new.cfg''"
      "ascii ''sw1''"]
  show ?thesis by blast
qed

text \<open>
  C1 fails as stated on error results. In a comparison of two files that do not exist,
  \<open>identical\<close> is false although the result has no differences.
\<close>

theorem error_result_breaks_invariant:
  "\<not> (identical (compare_configs default_checker (fixture_env [] [])
          (ascii ''old.cfg'') (ascii ''new.cfg'') (ascii ''sw1''))
      = (differences (compare_configs default_checker (fixture_env [] [])
          (ascii ''old.cfg'') (ascii ''new.cfg'') (ascii ''sw1'')) = []))"
  by (simp add: compare_configs_def compare_body_def fixture_env_def)

text \<open>
  C5. When reading either text fails, the exception stops at the handler of
  \<open>compare_configs\<close>, which returns a result with \<open>identical\<close> false, the \<open>error\<close> field
  set to the text of the exception and no differences.
\<close>

theorem read_failure_gives_error_result:
  assumes "(\<exists>e. read_text env p1 = Inl e) \<or> (\<exists>e. read_text env p2 = Inl e)"
  shows "\<exists>e. compare_body self env p1 p2 dev = Inl e
     \<and> compare_configs self env p1 p2 dev =
         \<lparr>identical = False, differences_count = 0,
          summary = ascii ''Comparison error: '' @ str_of_exn e, differences = [], device = dev,
          config1_file = None, config2_file = None, comparison_date = None,
          error = Some (str_of_exn e)\<rparr>
     \<and> \<not> identical (compare_configs self env p1 p2 dev)
     \<and> error (compare_configs self env p1 p2 dev) = Some (str_of_exn e)
     \<and> differences (compare_configs self env p1 p2 dev) = []"
proof -
  obtain e where e: "compare_body self env p1 p2 dev = Inl e"
    using compare_body_fail [OF assms] by blast
  show ?thesis
    by (rule exI [of _ e]) (simp add: e compare_configs_fail [OF e])
qed

theorem read_failure_gives_error_result_witness:
  "\<not> identical (compare_configs default_checker
        (fixture_env [(ascii ''old.cfg'', ascii ''a'')] [])
        (ascii ''old.cfg'') (ascii ''new.cfg'') (ascii ''sw1''))
   \<and> differences (compare_configs default_checker
        (fixture_env [(ascii ''old.cfg'', ascii ''a'')] [])
        (ascii ''old.cfg'') (ascii ''new.cfg'') (ascii ''sw1'')) = []
   \<and> error (compare_configs default_checker
        (fixture_env [(ascii ''old.cfg'', ascii ''a'')] [])
        (ascii ''old.cfg'') (ascii ''new.cfg'') (ascii ''sw1'')) \<noteq> None"
proof -
  let ?env = "fixture_env [(ascii ''old.cfg'', ascii ''a'')] []"
  have "\<exists>e. read_text ?env (ascii ''new.cfg'') = Inl e"
    by (simp add: fixture_env_def ascii_def)
  then have "(\<exists>e. read_text ?env (ascii ''old.cfg'') = Inl e)
      \<or> (\<exists>e. read_text ?env (ascii ''new.cfg'') = Inl e)" by (rule disjI2)
  from read_failure_gives_error_result [OF this, of default_checker "ascii ''sw1''"]
  show ?thesis by auto
qed

section \<open>Properties of the backup selector\<close>

lemma sort_by_name_desc_sorted:
  "sorted_wrt (\<lambda>a b. b \<le> a) (map path_name (sort_by_name_desc fs))"
proof -
  have "sorted (map path_name (sort_key path_name (rev fs)))"
    by (rule sorted_sort_key)
  then show ?thesis
    by (simp add: sort_by_name_desc_def rev_map [symmetric] sorted_wrt_rev)
qed

lemma sort_by_name_desc_mset: "mset (sort_by_name_desc fs) = mset fs"
  by (simp add: sort_by_name_desc_def)

lemma get_all_backups_cases:
  "(path_exists env (backup_dir self) = Inr True
      \<and> (\<exists>fs. glob env (backup_dir self) (dev @ ascii ''_*.cfg'') = Inr fs
            \<and> get_all_backups_for_device self env dev = sort_by_name_desc fs))
   \<or> get_all_backups_for_device self env dev = []"
  by (auto simp add: get_all_backups_for_device_def get_all_backups_body_def split: sum.splits)

lemma get_all_backups_found:
  "path_exists env (backup_dir self) = Inr True \<Longrightarrow>
   glob env (backup_dir self) (dev @ ascii ''_*.cfg'') = Inr fs \<Longrightarrow>
   get_all_backups_for_device self env dev = sort_by_name_desc fs"
  by (simp add: get_all_backups_for_device_def get_all_backups_body_def)

lemma get_all_backups_none:
  "path_exists env (backup_dir self) = Inr False
   \<or> (\<exists>e. path_exists env (backup_dir self) = Inl e)
   \<or> (\<exists>e. glob env (backup_dir self) (dev @ ascii ''_*.cfg'') = Inl e)
   \<or> glob env (backup_dir self) (dev @ ascii ''_*.cfg'') = Inr [] \<Longrightarrow>
   get_all_backups_for_device self env dev = []"
  by (auto simp add: get_all_backups_for_device_def get_all_backups_body_def
      sort_by_name_desc_def split: sum.splits)

lemma append_less_iff:
  fixes u v :: "'a::linorder list"
  shows "length u = length v \<Longrightarrow> (u @ xs < v @ ys) = (u < v \<or> u = v \<and> xs < ys)"
  by (induction u v rule: list_induct2) auto

lemma str_of_nat_1: "n < 10 \<Longrightarrow> str_of_nat n = [48 + n]"
  by (simp add: str_of_nat.simps)

lemma str_of_nat_2: "10 \<le> n \<Longrightarrow> n < 100 \<Longrightarrow> str_of_nat n = [48 + n div 10, 48 + n mod 10]"
  by (subst str_of_nat.simps) (simp add: str_of_nat_1)

lemma str_of_nat_3:
  "100 \<le> n \<Longrightarrow> n < 1000 \<Longrightarrow>
   str_of_nat n = [48 + n div 100, 48 + n div 10 mod 10, 48 + n mod 10]"
  by (subst str_of_nat.simps) (simp add: str_of_nat_2 div_mult2_eq [symmetric])

lemma str_of_nat_4:
  "1000 \<le> n \<Longrightarrow> n \<le> 9999 \<Longrightarrow>
   str_of_nat n = [48 + n div 1000, 48 + n div 100 mod 10, 48 + n div 10 mod 10, 48 + n mod 10]"
  by (subst str_of_nat.simps) (simp add: str_of_nat_3 div_mult2_eq [symmetric])

lemma two_digits: "n < 100 \<Longrightarrow> zfill 2 (str_of_nat n) = [48 + n div 10, 48 + n mod 10]"
  by (cases "n < 10") (simp_all add: zfill_def str_of_nat_1 str_of_nat_2)

lemma two_digits_length: "n < 100 \<Longrightarrow> length (zfill 2 (str_of_nat n)) = 2"
  by (simp add: two_digits)

lemma base_less:
  fixes k :: nat
  assumes "ra < k" and "rb < k"
  shows "(k * qa + ra < k * qb + rb) = (qa < qb \<or> qa = qb \<and> ra < rb)"
proof -
  have lt: "k * x + r < k * y + s" if "x < y" and "r < k" for x y r s
  proof -
    have "k * x + r < k * Suc x" using that(2) by simp
    also have "\<dots> \<le> k * y" using that(1) by (intro mult_le_mono2) simp
    also have "\<dots> \<le> k * y + s" by simp
    finally show ?thesis .
  qed
  consider "qa < qb" | "qa = qb" | "qb < qa" by (rule linorder_cases)
  then show ?thesis
  proof cases
    case 1
    with lt [OF 1 assms(1), of rb] show ?thesis by simp
  next
    case 2
    then show ?thesis by simp
  next
    case 3
    with lt [OF 3 assms(2), of ra] show ?thesis by simp
  qed
qed

lemma base_eq:
  fixes k :: nat
  assumes "ra < k" and "rb < k"
  shows "(k * qa + ra = k * qb + rb) = (qa = qb \<and> ra = rb)"
proof -
  have "\<not> k * qa + ra < k * qb + rb \<and> \<not> k * qb + rb < k * qa + ra \<longleftrightarrow> qa = qb \<and> ra = rb"
    unfolding base_less [OF assms] base_less [OF assms(2,1)] by auto
  then show ?thesis by auto
qed

lemma mod_100_digits:
  fixes n :: nat
  shows "n mod 100 div 10 = n div 10 mod 10" and "n mod 100 mod 10 = n mod 10"
proof -
  have m: "n mod 100 = 10 * (n div 10 mod 10) + n mod 10"
    using mod_mult2_eq [of n 10 10] by simp
  show "n mod 100 div 10 = n div 10 mod 10" unfolding m by simp
  show "n mod 100 mod 10 = n mod 10" unfolding m by simp
qed

lemma two_digits_less:
  assumes "a < 100" and "b < 100"
  shows "(zfill 2 (str_of_nat a) < zfill 2 (str_of_nat b)) = (a < b)"
proof -
  have "(zfill 2 (str_of_nat a) < zfill 2 (str_of_nat b))
      = (a div 10 < b div 10 \<or> a div 10 = b div 10 \<and> a mod 10 < b mod 10)"
    using assms by (simp add: two_digits)
  also have "\<dots> = (10 * (a div 10) + a mod 10 < 10 * (b div 10) + b mod 10)"
    by (rule base_less [symmetric]) simp_all
  finally show ?thesis by simp
qed

lemma two_digits_eq:
  assumes "a < 100" and "b < 100"
  shows "(zfill 2 (str_of_nat a) = zfill 2 (str_of_nat b)) = (a = b)"
proof -
  have "(zfill 2 (str_of_nat a) = zfill 2 (str_of_nat b))
      = (a div 10 = b div 10 \<and> a mod 10 = b mod 10)"
    using assms by (simp add: two_digits)
  also have "\<dots> = (10 * (a div 10) + a mod 10 = 10 * (b div 10) + b mod 10)"
    by (rule base_eq [symmetric]) simp_all
  finally show ?thesis by simp
qed

lemma year_blocks:
  assumes "1000 \<le> n" and "n \<le> 9999"
  shows "str_of_nat n = zfill 2 (str_of_nat (n div 100)) @ zfill 2 (str_of_nat (n mod 100))"
proof -
  have a: "n div 100 div 10 = n div 1000" by (simp add: div_mult2_eq [symmetric])
  have hi: "n div 100 < 100" using assms by simp
  have lo: "n mod 100 < 100" by simp
  show ?thesis
    unfolding str_of_nat_4 [OF assms] two_digits [OF hi] two_digits [OF lo] a mod_100_digits
    by simp
qed

lemma four_digits_length: "1000 \<le> n \<Longrightarrow> n \<le> 9999 \<Longrightarrow> length (str_of_nat n) = 4"
  by (simp add: str_of_nat_4)

lemma four_digits_less:
  assumes "1000 \<le> a" "a \<le> 9999" "1000 \<le> b" "b \<le> 9999"
  shows "(str_of_nat a < str_of_nat b) = (a < b)"
proof -
  have hi: "a div 100 < 100" "b div 100 < 100" using assms by simp_all
  have lo: "a mod 100 < 100" "b mod 100 < 100" by simp_all
  have len: "length (zfill 2 (str_of_nat (a div 100))) = length (zfill 2 (str_of_nat (b div 100)))"
    by (simp only: two_digits_length [OF hi(1)] two_digits_length [OF hi(2)])
  have "(str_of_nat a < str_of_nat b)
      = (a div 100 < b div 100 \<or> a div 100 = b div 100 \<and> a mod 100 < b mod 100)"
    unfolding year_blocks [OF assms(1,2)] year_blocks [OF assms(3,4)] append_less_iff [OF len]
      two_digits_less [OF hi] two_digits_eq [OF hi] two_digits_less [OF lo] ..
  also have "\<dots> = (100 * (a div 100) + a mod 100 < 100 * (b div 100) + b mod 100)"
    by (rule base_less [symmetric]) simp_all
  finally show ?thesis by simp
qed

lemma four_digits_eq:
  assumes "1000 \<le> a" "a \<le> 9999" "1000 \<le> b" "b \<le> 9999"
  shows "(str_of_nat a = str_of_nat b) = (a = b)"
proof -
  have hi: "a div 100 < 100" "b div 100 < 100" using assms by simp_all
  have lo: "a mod 100 < 100" "b mod 100 < 100" by simp_all
  have len: "length (zfill 2 (str_of_nat (a div 100))) = length (zfill 2 (str_of_nat (b div 100)))"
    by (simp only: two_digits_length [OF hi(1)] two_digits_length [OF hi(2)])
  have "(str_of_nat a = str_of_nat b)
      = (a div 100 = b div 100 \<and> a mod 100 = b mod 100)"
    unfolding year_blocks [OF assms(1,2)] year_blocks [OF assms(3,4)]
      append_eq_append_conv [OF disjI1 [OF len]] two_digits_eq [OF hi] two_digits_eq [OF lo] ..
  also have "\<dots> = (100 * (a div 100) + a mod 100 = 100 * (b div 100) + b mod 100)"
    by (rule base_eq [symmetric]) simp_all
  finally show ?thesis by simp
qed


lemma snapshot_filename_less:
  assumes "valid_datetime t" and "valid_datetime t'"
  shows "(snapshot_filename dev t < snapshot_filename dev t') = earlier t t'"
proof -
  have t: "1000 \<le> year t" "year t \<le> 9999" "month t < 100" "day t < 100" "hour t < 100"
      "minute t < 100" "second t < 100"
    using assms(1) by (simp_all add: valid_datetime_def)
  have t': "1000 \<le> year t'" "year t' \<le> 9999" "month t' < 100" "day t' < 100" "hour t' < 100"
      "minute t' < 100" "second t' < 100"
    using assms(2) by (simp_all add: valid_datetime_def)
  show ?thesis
    unfolding snapshot_filename_def strftime_stamp_def earlier_def seconds_key_def earlier6.simps
    by (simp add: append_less_iff t t' four_digits_length four_digits_less four_digits_eq
        two_digits_length two_digits_less two_digits_eq)
qed

lemmas path_eval = path_name_def path_parts_def ascii_def

text \<open>
  C7. The listing is in descending order of the file names. It is the result of the
  \<open>glob\<close> in another order when the backup directory exists, and it is empty, not an
  error, when the directory does not exist, when no file matches, and when a file
  operation raises. For two capture times with years of four digits, the file name of
  the later snapshot of a device is strictly greater, as a string, than that of the
  earlier one.
\<close>

theorem listing_is_newest_first:
  "sorted_wrt (\<lambda>a b. b \<le> a) (map path_name (get_all_backups_for_device self env dev))
   \<and> (\<forall>fs. path_exists env (backup_dir self) = Inr True
          \<and> glob env (backup_dir self) (dev @ ascii ''_*.cfg'') = Inr fs
        \<longrightarrow> mset (get_all_backups_for_device self env dev) = mset fs)
   \<and> (path_exists env (backup_dir self) = Inr False
        \<or> (\<exists>e. path_exists env (backup_dir self) = Inl e)
        \<or> (\<exists>e. glob env (backup_dir self) (dev @ ascii ''_*.cfg'') = Inl e)
        \<or> glob env (backup_dir self) (dev @ ascii ''_*.cfg'') = Inr []
        \<longrightarrow> get_all_backups_for_device self env dev = [])
   \<and> (\<forall>t t'. valid_datetime t \<and> valid_datetime t' \<and> earlier t t'
        \<longrightarrow> snapshot_filename dev t < snapshot_filename dev t')"
proof (intro conjI allI impI)
  show "sorted_wrt (\<lambda>a b. b \<le> a) (map path_name (get_all_backups_for_device self env dev))"
    using get_all_backups_cases [of env self dev] sort_by_name_desc_sorted by auto
next
  fix fs
  assume "path_exists env (backup_dir self) = Inr True
          \<and> glob env (backup_dir self) (dev @ ascii ''_*.cfg'') = Inr fs"
  then show "mset (get_all_backups_for_device self env dev) = mset fs"
    by (simp add: get_all_backups_found sort_by_name_desc_mset)
next
  assume "path_exists env (backup_dir self) = Inr False
        \<or> (\<exists>e. path_exists env (backup_dir self) = Inl e)
        \<or> (\<exists>e. glob env (backup_dir self) (dev @ ascii ''_*.cfg'') = Inl e)
        \<or> glob env (backup_dir self) (dev @ ascii ''_*.cfg'') = Inr []"
  then show "get_all_backups_for_device self env dev = []"
    by (rule get_all_backups_none)
next
  fix t t'
  assume "valid_datetime t \<and> valid_datetime t' \<and> earlier t t'"
  then show "snapshot_filename dev t < snapshot_filename dev t'"
    by (simp add: snapshot_filename_less)
qed

theorem listing_is_newest_first_witness:
  "get_all_backups_for_device default_checker
      (fixture_env []
         [ascii ''backups/sw1_20240101_120000.cfg'', ascii ''backups/sw1_20240103_120000.cfg'',
          ascii ''backups/sw1_20240102_120000.cfg'']) (ascii ''sw1'')
     = [ascii ''backups/sw1_20240103_120000.cfg'', ascii ''backups/sw1_20240102_120000.cfg'',
        ascii ''backups/sw1_20240101_120000.cfg'']
   \<and> mset (get_all_backups_for_device default_checker
      (fixture_env []
         [ascii ''backups/sw1_20240101_120000.cfg'', ascii ''backups/sw1_20240103_120000.cfg'',
          ascii ''backups/sw1_20240102_120000.cfg'']) (ascii ''sw1''))
     = mset [ascii ''backups/sw1_20240101_120000.cfg'', ascii ''backups/sw1_20240103_120000.cfg'',
          ascii ''backups/sw1_20240102_120000.cfg'']
   \<and> get_all_backups_for_device default_checker
        ((fixture_env [] [ascii ''backups/sw1_20240101_120000.cfg''])
           \<lparr>path_exists := \<lambda>p. Inr False\<rparr>) (ascii ''sw1'') = []
   \<and> snapshot_filename (ascii ''sw1'')
        \<lparr>year = 2024, month = 9, day = 30, hour = 23, minute = 59, second = 59, microsecond = 0\<rparr>
     < snapshot_filename (ascii ''sw1'')
        \<lparr>year = 2024, month = 10, day = 1, hour = 0, minute = 0, second = 0, microsecond = 0\<rparr>"
proof -
  let ?listing = "[ascii ''backups/sw1_20240101_120000.cfg'', ascii ''backups/sw1_20240103_120000.cfg'',
          ascii ''backups/sw1_20240102_120000.cfg'']"
  let ?env = "fixture_env [] ?listing"
  let ?gone = "(fixture_env [] [ascii ''backups/sw1_20240101_120000.cfg''])
           \<lparr>path_exists := \<lambda>p. Inr False\<rparr>"
  let ?t = "\<lparr>year = 2024, month = 9, day = 30, hour = 23, minute = 59, second = 59, microsecond = 0\<rparr>"
  let ?t' = "\<lparr>year = 2024, month = 10, day = 1, hour = 0, minute = 0, second = 0, microsecond = 0\<rparr>"
  have v: "get_all_backups_for_device default_checker ?env (ascii ''sw1'')
     = [ascii ''backups/sw1_20240103_120000.cfg'', ascii ''backups/sw1_20240102_120000.cfg'',
        ascii ''backups/sw1_20240101_120000.cfg'']"
    by (simp add: get_all_backups_for_device_def get_all_backups_body_def fixture_env_def
        sort_by_name_desc_def path_eval)
  have found: "path_exists ?env (backup_dir default_checker) = Inr True
      \<and> glob ?env (backup_dir default_checker) (ascii ''sw1'' @ ascii ''_*.cfg'') = Inr ?listing"
    by (simp add: fixture_env_def)
  have gone: "path_exists ?gone (backup_dir default_checker) = Inr False"
    by (simp add: fixture_env_def)
  have times: "valid_datetime ?t \<and> valid_datetime ?t' \<and> earlier ?t ?t'"
    by (simp add: valid_datetime_def earlier_def seconds_key_def)
  from listing_is_newest_first [of default_checker ?env "ascii ''sw1''"] found
  have m: "mset (get_all_backups_for_device default_checker ?env (ascii ''sw1'')) = mset ?listing"
    by blast
  from listing_is_newest_first [of default_checker ?gone "ascii ''sw1''"] gone
  have g: "get_all_backups_for_device default_checker ?gone (ascii ''sw1'') = []"
    by blast
  from listing_is_newest_first [of default_checker ?env "ascii ''sw1''"] times
  have l: "snapshot_filename (ascii ''sw1'') ?t < snapshot_filename (ascii ''sw1'') ?t'"
    by blast
  from v m g l show ?thesis by blast
qed

text \<open>
  C6. With fewer than two backups listed, \<open>compare_latest_two_backups\<close> returns, with no
  exception, the result that carries the message with the number found, the device
  name and that number as \<open>backups_available\<close>; the number, 0 or 1, is a single digit
  of the message.
\<close>

theorem insufficient_backups_reported:
  assumes "length (get_all_backups_for_device self env dev) < 2"
  shows "compare_latest_two_body self env dev
       = Inr (compare_latest_two_backups self env dev)
     \<and> compare_latest_two_backups self env dev
       = Insufficient
           (ascii ''Insufficient backups: ''
              @ str_of_nat (length (get_all_backups_for_device self env dev))
              @ ascii '' found, need at least 2'')
           dev (length (get_all_backups_for_device self env dev))
     \<and> str_of_nat (length (get_all_backups_for_device self env dev))
       = [48 + length (get_all_backups_for_device self env dev)]"
  using assms
  by (simp add: compare_latest_two_backups_def compare_latest_two_body_def Let_def str_of_nat_1)

theorem insufficient_backups_reported_witness:
  "compare_latest_two_backups default_checker
      (fixture_env [] [ascii ''backups/sw1_20240101_120000.cfg'']) (ascii ''sw1'')
   = Insufficient (ascii ''Insufficient backups: 1 found, need at least 2'') (ascii ''sw1'') 1"
proof -
  let ?env = "fixture_env [] [ascii ''backups/sw1_20240101_120000.cfg'']"
  have n: "get_all_backups_for_device default_checker ?env (ascii ''sw1'')
      = [ascii ''backups/sw1_20240101_120000.cfg'']"
    by (simp add: get_all_backups_for_device_def get_all_backups_body_def fixture_env_def
        sort_by_name_desc_def)
  then have "length (get_all_backups_for_device default_checker ?env (ascii ''sw1'')) < 2"
    by simp
  from insufficient_backups_reported [OF this]
  have "compare_latest_two_backups default_checker ?env (ascii ''sw1'')
      = Insufficient
          (ascii ''Insufficient backups: ''
             @ str_of_nat (length (get_all_backups_for_device default_checker ?env (ascii ''sw1'')))
             @ ascii '' found, need at least 2'')
          (ascii ''sw1'') (length (get_all_backups_for_device default_checker ?env (ascii ''sw1'')))"
    by blast
  then show ?thesis
    unfolding n by (simp add: str_of_nat_1 ascii_def)
qed

section \<open>Properties of the fleet backup\<close>

lemma write_file_write_error:
  "write_file w path content = Inr w' \<Longrightarrow> write_error w' = write_error w"
  by (auto simp add: write_file_def split: option.splits)

lemma connect_to_device_world:
  "connect_to_device w dev = (c, w1) \<Longrightarrow>
   write_error w1 = write_error w \<and> files w1 = files w \<and> clock w1 = clock w"
  by (auto simp add: connect_to_device_def random_random_def split: if_splits)

lemma get_device_config_world:
  "get_device_config self w c dtype = (cfg, w1) \<Longrightarrow>
   write_error w1 = write_error w \<and> files w1 = files w \<and> clock w1 = clock w"
  by (auto simp add: get_device_config_def random_random_def Let_def split: if_splits)

lemma save_backup_write_error:
  "(save_backup self w dev config = Inl (e, w') \<longrightarrow> write_error w' = write_error w)
   \<and> (save_backup self w dev config = Inr w' \<longrightarrow> write_error w' = write_error w)"
  by (auto simp add: save_backup_def datetime_now_def Let_def
      dest!: write_file_write_error split: sum.splits)

lemma backup_single_device_write_error:
  assumes "backup_single_device self w dev = (ok, w')"
  shows "write_error w' = write_error w"
proof -
  obtain c w1 where c: "connect_to_device w dev = (c, w1)" by (cases "connect_to_device w dev")
  then have w1: "write_error w1 = write_error w" using connect_to_device_world by blast
  show ?thesis
  proof (cases c)
    case None
    with assms c w1 show ?thesis by (simp add: backup_single_device_def)
  next
    case (Some conn)
    obtain cfg w2 where g: "get_device_config self w1 conn (device_type dev) = (cfg, w2)"
      by (cases "get_device_config self w1 conn (device_type dev)")
    then have w2: "write_error w2 = write_error w1" using get_device_config_world by blast
    show ?thesis
    proof (cases cfg)
      case None
      with assms c Some g w1 w2 show ?thesis by (simp add: backup_single_device_def)
    next
      case cfg: (Some config)
      show ?thesis
      proof (cases "config = []")
        case True
        with assms c Some g cfg w1 w2 show ?thesis by (simp add: backup_single_device_def)
      next
        case False
        show ?thesis
        proof (cases "save_backup self w2 dev config")
          case (Inl a)
          obtain e w3 where a: "a = (e, w3)" by (cases a)
          with Inl save_backup_write_error [of self w2 dev config e w3]
          have "write_error w3 = write_error w2" by simp
          with assms c Some g cfg False Inl a w1 w2 show ?thesis
            by (simp add: backup_single_device_def)
        next
          case (Inr w3)
          with save_backup_write_error [of self w2 dev config _ w3]
          have "write_error w3 = write_error w2" by simp
          with assms c Some g cfg False Inr w1 w2 show ?thesis
            by (simp add: backup_single_device_def)
        qed
      qed
    qed
  qed
qed

text \<open>What one turn of the loop does to the result: one entry more, in one of the two lists.\<close>

lemma backup_step_entry:
  assumes "backup_step self (r, w) dev = (r', w')"
  shows "mset (success r') + mset (failed r')
       = mset (success r) + mset (failed r)
         + {#\<lparr>summary_name = name dev, summary_host = host dev\<rparr>#}"
    and "total_devices r' = total_devices r"
    and "write_error w' = write_error w"
proof -
  obtain ok w1 where s: "backup_single_device self w dev = (ok, w1)"
    by (cases "backup_single_device self w dev")
  from assms s show "mset (success r') + mset (failed r')
       = mset (success r) + mset (failed r)
         + {#\<lparr>summary_name = name dev, summary_host = host dev\<rparr>#}"
    by (cases ok) (auto simp add: backup_step_def Let_def)
  from assms s show "total_devices r' = total_devices r"
    by (cases ok) (auto simp add: backup_step_def Let_def)
  from assms s backup_single_device_write_error [OF s] show "write_error w' = write_error w"
    by (cases ok) (auto simp add: backup_step_def Let_def)
qed

lemma backup_loop_entries:
  "backup_loop self (r, w) devs = (r', w') \<Longrightarrow>
   mset (success r') + mset (failed r')
     = mset (success r) + mset (failed r)
       + mset (map (\<lambda>d. \<lparr>summary_name = name d, summary_host = host d\<rparr>) devs)
   \<and> total_devices r' = total_devices r \<and> write_error w' = write_error w"
proof (induction devs arbitrary: r w)
  case Nil
  then show ?case by simp
next
  case (Cons dev rest)
  obtain r1 w1 where s: "backup_step self (r, w) dev = (r1, w1)"
    by (cases "backup_step self (r, w) dev")
  with Cons.prems have "backup_loop self (r1, w1) rest = (r', w')" by simp
  from Cons.IH [OF this] backup_step_entry [OF s] show ?case by simp
qed

lemma backup_all_devices_loop:
  assumes "backup_all_devices self w = Inr (r, w')"
  shows "\<exists>t w1 w2. backup_loop self
           (\<lparr>success = [], failed = [], timestamp = t, total_devices = length (devices self),
             results_type = ascii ''mock_backup''\<rparr>, w1) (devices self) = (r, w2)"
proof -
  obtain t w1 where n: "datetime_now w = (t, w1)" by (cases "datetime_now w")
  let ?init = "\<lparr>success = [], failed = [], timestamp = isoformat t,
      total_devices = length (devices self), results_type = ascii ''mock_backup''\<rparr>"
  obtain r2 w2 where l: "backup_loop self (?init, w1) (devices self) = (r2, w2)"
    by (cases "backup_loop self (?init, w1) (devices self)")
  from assms n l have "r2 = r"
    by (auto simp add: backup_all_devices_def Let_def split: sum.splits)
  with l show ?thesis by blast
qed

lemma backup_all_devices_returns:
  assumes "write_error w (joinpath (tool_backup_dir self) (ascii ''backup_results.json'')) = None"
  shows "\<exists>r w'. backup_all_devices self w = Inr (r, w')"
proof -
  obtain t w1 where n: "datetime_now w = (t, w1)" by (cases "datetime_now w")
  then have e1: "write_error w1 = write_error w" by (auto simp add: datetime_now_def)
  let ?init = "\<lparr>success = [], failed = [], timestamp = isoformat t,
      total_devices = length (devices self), results_type = ascii ''mock_backup''\<rparr>"
  obtain r2 w2 where l: "backup_loop self (?init, w1) (devices self) = (r2, w2)"
    by (cases "backup_loop self (?init, w1) (devices self)")
  from backup_loop_entries [OF l] e1 have "write_error w2 = write_error w" by simp
  with assms n l show ?thesis
    by (simp add: backup_all_devices_def Let_def write_file_def)
qed

text \<open>
  C3. Provided the file of the results can be written, \<open>backup_all_devices\<close> returns a
  result, and every result it returns has these properties. Its two lists together hold
  one entry, name and host, for each device of the input, so by name each device occurs
  in them as often as in the input: none is left out and none is added. When the names
  of the input are distinct, no name occurs twice in the two lists. \<open>total_devices\<close> is
  the length of the input, and an empty input gives two empty lists and the total 0.
\<close>

theorem backup_all_partitions_devices:
  "(write_error w (joinpath (tool_backup_dir self) (ascii ''backup_results.json'')) = None
      \<longrightarrow> (\<exists>r w'. backup_all_devices self w = Inr (r, w')))
   \<and> (\<forall>r w'. backup_all_devices self w = Inr (r, w') \<longrightarrow>
        mset (success r) + mset (failed r)
          = mset (map (\<lambda>d. \<lparr>summary_name = name d, summary_host = host d\<rparr>) (devices self))
      \<and> mset (map summary_name (success r)) + mset (map summary_name (failed r))
          = mset (map name (devices self))
      \<and> (distinct (map name (devices self)) \<longrightarrow>
            distinct (map summary_name (success r) @ map summary_name (failed r)))
      \<and> total_devices r = length (devices self)
      \<and> (devices self = [] \<longrightarrow> success r = [] \<and> failed r = [] \<and> total_devices r = 0))"
proof
  show "write_error w (joinpath (tool_backup_dir self) (ascii ''backup_results.json'')) = None
      \<longrightarrow> (\<exists>r w'. backup_all_devices self w = Inr (r, w'))"
    using backup_all_devices_returns by blast
next
  show "\<forall>r w'. backup_all_devices self w = Inr (r, w') \<longrightarrow>
        mset (success r) + mset (failed r)
          = mset (map (\<lambda>d. \<lparr>summary_name = name d, summary_host = host d\<rparr>) (devices self))
      \<and> mset (map summary_name (success r)) + mset (map summary_name (failed r))
          = mset (map name (devices self))
      \<and> (distinct (map name (devices self)) \<longrightarrow>
            distinct (map summary_name (success r) @ map summary_name (failed r)))
      \<and> total_devices r = length (devices self)
      \<and> (devices self = [] \<longrightarrow> success r = [] \<and> failed r = [] \<and> total_devices r = 0)"
  proof (intro allI impI)
    fix r w'
    assume run: "backup_all_devices self w = Inr (r, w')"
    then obtain t w1 w2 where "backup_loop self
        (\<lparr>success = [], failed = [], timestamp = t, total_devices = length (devices self),
          results_type = ascii ''mock_backup''\<rparr>, w1) (devices self) = (r, w2)"
      using backup_all_devices_loop by blast
    from backup_loop_entries [OF this]
    have entries: "mset (success r) + mset (failed r)
        = mset (map (\<lambda>d. \<lparr>summary_name = name d, summary_host = host d\<rparr>) (devices self))"
      and total: "total_devices r = length (devices self)"
      by simp_all
    have "mset (map summary_name (success r)) + mset (map summary_name (failed r))
        = image_mset summary_name (mset (success r) + mset (failed r))"
      by simp
    also have "\<dots> = mset (map name (devices self))"
      unfolding entries by (simp add: image_mset.compositionality comp_def)
    finally have names: "mset (map summary_name (success r)) + mset (map summary_name (failed r))
        = mset (map name (devices self))" .
    have dist: "distinct (map summary_name (success r) @ map summary_name (failed r))"
      if "distinct (map name (devices self))"
    proof -
      have "mset (map summary_name (success r) @ map summary_name (failed r))
          = mset (map name (devices self))"
        using names by simp
      with that show ?thesis using mset_eq_imp_distinct_iff by blast
    qed
    have none: "success r = [] \<and> failed r = [] \<and> total_devices r = 0" if "devices self = []"
      using that entries total by simp
    from entries names dist total none
    show "mset (success r) + mset (failed r)
          = mset (map (\<lambda>d. \<lparr>summary_name = name d, summary_host = host d\<rparr>) (devices self))
      \<and> mset (map summary_name (success r)) + mset (map summary_name (failed r))
          = mset (map name (devices self))
      \<and> (distinct (map name (devices self)) \<longrightarrow>
            distinct (map summary_name (success r) @ map summary_name (failed r)))
      \<and> total_devices r = length (devices self)
      \<and> (devices self = [] \<longrightarrow> success r = [] \<and> failed r = [] \<and> total_devices r = 0)"
      by blast
  qed
qed

lemmas tool_eval =
  backup_all_devices_def backup_step_def backup_single_device_def save_backup_def
  get_device_config_def connect_to_device_def write_file_def datetime_now_def random_random_def
  fixture_world_def fixture_tool_def Let_def ascii_def

theorem backup_all_partitions_devices_witness:
  "(\<exists>r w'. backup_all_devices
      (fixture_tool
         [\<lparr>name = ascii ''sw1'', host = ascii ''10.0.0.1'', device_type = ascii ''cisco_ios''\<rparr>,
          \<lparr>name = ascii ''sw2'', host = ascii ''10.0.0.2'', device_type = ascii ''arista_eos''\<rparr>]
         (\<lambda>n. ascii ''hostname '' @ n))
      (fixture_world (\<lambda>n. if n = 0 then 0.05 else 0.5)) = Inr (r, w')
      \<and> mset (map summary_name (success r)) + mset (map summary_name (failed r))
          = mset [ascii ''sw1'', ascii ''sw2'']
      \<and> distinct (map summary_name (success r) @ map summary_name (failed r))
      \<and> total_devices r = 2)
   \<and> (case backup_all_devices
      (fixture_tool
         [\<lparr>name = ascii ''sw1'', host = ascii ''10.0.0.1'', device_type = ascii ''cisco_ios''\<rparr>,
          \<lparr>name = ascii ''sw2'', host = ascii ''10.0.0.2'', device_type = ascii ''arista_eos''\<rparr>]
         (\<lambda>n. ascii ''hostname '' @ n))
      (fixture_world (\<lambda>n. if n = 0 then 0.05 else 0.5)) of
       Inl e \<Rightarrow> False
     | Inr (r, w') \<Rightarrow> map summary_name (success r) = [ascii ''sw2'']
         \<and> map summary_name (failed r) = [ascii ''sw1''])
   \<and> (\<exists>r w'. backup_all_devices (fixture_tool [] (\<lambda>n. ascii ''hostname '' @ n))
        (fixture_world (\<lambda>n. 0.5)) = Inr (r, w')
      \<and> success r = [] \<and> failed r = [] \<and> total_devices r = 0)"
proof -
  let ?T = "fixture_tool
         [\<lparr>name = ascii ''sw1'', host = ascii ''10.0.0.1'', device_type = ascii ''cisco_ios''\<rparr>,
          \<lparr>name = ascii ''sw2'', host = ascii ''10.0.0.2'', device_type = ascii ''arista_eos''\<rparr>]
         (\<lambda>n. ascii ''hostname '' @ n)"
  let ?W = "fixture_world (\<lambda>n. if n = 0 then 0.05 else 0.5)"
  let ?E = "fixture_tool [] (\<lambda>n. ascii ''hostname '' @ n)"
  let ?V = "fixture_world (\<lambda>n. 0.5)"
  have ok: "write_error ?W (joinpath (tool_backup_dir ?T) (ascii ''backup_results.json'')) = None"
    by (simp add: fixture_world_def)
  have devs: "devices ?T =
      [\<lparr>name = ascii ''sw1'', host = ascii ''10.0.0.1'', device_type = ascii ''cisco_ios''\<rparr>,
       \<lparr>name = ascii ''sw2'', host = ascii ''10.0.0.2'', device_type = ascii ''arista_eos''\<rparr>]"
    by (simp add: fixture_tool_def)
  have names: "map name (devices ?T) = [ascii ''sw1'', ascii ''sw2'']"
    unfolding devs by simp
  have d: "distinct (map name (devices ?T))"
    unfolding names by (simp add: ascii_def)
  have len: "length (devices ?T) = 2"
    unfolding devs by simp
  have one: "\<exists>r w'. backup_all_devices ?T ?W = Inr (r, w')
      \<and> mset (map summary_name (success r)) + mset (map summary_name (failed r))
          = mset [ascii ''sw1'', ascii ''sw2'']
      \<and> distinct (map summary_name (success r) @ map summary_name (failed r))
      \<and> total_devices r = 2"
    using backup_all_partitions_devices [of ?W ?T] ok d unfolding names len by blast
  have two: "(case backup_all_devices ?T ?W of
       Inl e \<Rightarrow> False
     | Inr (r, w') \<Rightarrow> map summary_name (success r) = [ascii ''sw2'']
         \<and> map summary_name (failed r) = [ascii ''sw1''])"
    by (simp add: tool_eval)
  have ok_e: "write_error ?V (joinpath (tool_backup_dir ?E) (ascii ''backup_results.json'')) = None"
    by (simp add: fixture_world_def)
  have devs_e: "devices ?E = []"
    by (simp add: fixture_tool_def)
  have three: "\<exists>r w'. backup_all_devices ?E ?V = Inr (r, w')
      \<and> success r = [] \<and> failed r = [] \<and> total_devices r = 0"
    using backup_all_partitions_devices [of ?V ?E] ok_e devs_e by blast
  from one two three show ?thesis by (intro conjI)
qed

text \<open>
  C9. A device is given whose connection succeeds and whose retrieval succeeds with the
  empty text. Then \<open>backup_single_device\<close> returns \<open>False\<close> and leaves the files as they
  were, so no snapshot is written, and the turn of the loop of \<open>backup_all_devices\<close> for
  this device appends it to the \<open>failed\<close> list and leaves the \<open>success\<close> list as it was.
\<close>

theorem empty_config_counts_as_failure:
  assumes "connect_to_device w dev = (Some connection, w1)"
    and "get_device_config self w1 connection (device_type dev) = (Some [], w2)"
  shows "backup_single_device self w dev = (False, w2)
     \<and> files w2 = files w
     \<and> backup_step self (results, w) dev
       = (results\<lparr>failed := failed results
                    @ [\<lparr>summary_name = name dev, summary_host = host dev\<rparr>]\<rparr>, w2)
     \<and> success (fst (backup_step self (results, w) dev)) = success results"
proof -
  have single: "backup_single_device self w dev = (False, w2)"
    using assms by (simp add: backup_single_device_def)
  have "files w1 = files w" using connect_to_device_world [OF assms(1)] by simp
  moreover have "files w2 = files w1" using get_device_config_world [OF assms(2)] by simp
  ultimately have same: "files w2 = files w" by simp
  have step: "backup_step self (results, w) dev
       = (results\<lparr>failed := failed results
                    @ [\<lparr>summary_name = name dev, summary_host = host dev\<rparr>]\<rparr>, w2)"
    by (simp add: backup_step_def single)
  from single same step show ?thesis by simp
qed

theorem empty_config_counts_as_failure_witness:
  "backup_single_device (fixture_tool [] (\<lambda>n. []))
      (fixture_world (\<lambda>n. 0.5))
      \<lparr>name = ascii ''sw1'', host = ascii ''10.0.0.1'', device_type = ascii ''cisco_ios''\<rparr>
     = (False, (fixture_world (\<lambda>n. 0.5))\<lparr>rng_pos := 2\<rparr>)
   \<and> files ((fixture_world (\<lambda>n. 0.5))\<lparr>rng_pos := 2\<rparr>) = files (fixture_world (\<lambda>n. 0.5))"
proof -
  let ?T = "fixture_tool [] (\<lambda>n. [])"
  let ?W = "fixture_world (\<lambda>n. 0.5)"
  let ?d = "\<lparr>name = ascii ''sw1'', host = ascii ''10.0.0.1'', device_type = ascii ''cisco_ios''\<rparr>"
  have c: "connect_to_device ?W ?d = (Some ?d, ?W\<lparr>rng_pos := 1\<rparr>)"
    by (simp add: connect_to_device_def random_random_def fixture_world_def)
  have g: "get_device_config ?T (?W\<lparr>rng_pos := 1\<rparr>) ?d (device_type ?d)
      = (Some [], ?W\<lparr>rng_pos := 2\<rparr>)"
    by (simp add: get_device_config_def random_random_def fixture_world_def fixture_tool_def)
  from empty_config_counts_as_failure [OF c g] show ?thesis by blast
qed

end
